theory Spec2Isabelle
  imports Main "HOL-Library.Multiset"
begin

section \<open>Errors and basic types\<close>

text \<open>
  The script \<^verbatim>\<open>scripts/merge-cjk-font.py\<close> signals failure by raising. Every raise is a
  value here: \<open>SystemExit\<close> and \<open>RuntimeError\<close> are raised by the script itself, \<open>KeyError\<close>
  by a dictionary lookup on a missing key or a font table that is absent, \<open>OSError\<close> by
  opening a path that cannot be read, \<open>TTLibError\<close> by \<^verbatim>\<open>fontTools\<close> on a file that is not a
  font, \<open>UnicodeEncodeError\<close> by \<^verbatim>\<open>fontTools\<close> when it saves a name record whose string the
  encoding of the record cannot hold.
\<close>

datatype error =
    SystemExit string
  | RuntimeError string
  | KeyError string
  | OSError string
  | TTLibError string
  | UnicodeEncodeError string

text \<open>
  Codepoints are Python integers. A character of a corpus text is identified with its
  Unicode scalar value, and \<^verbatim>\<open>ord\<close> reads it as an integer. Tags, paths and names are
  strings of characters below 256.
\<close>

type_synonym codepoint = int
type_synonym uchar = nat

definition py_ord :: "uchar \<Rightarrow> codepoint" where
  "py_ord c = int c"

section \<open>String operations of the Python library\<close>

text \<open>\<^verbatim>\<open>str.isspace\<close> on the characters below 256: TAB to CR, FS to US, space, NEL, NBSP.\<close>

definition isspace :: "char \<Rightarrow> bool" where
  "isspace c = (of_char c \<in> {9, 10, 11, 12, 13, 28, 29, 30, 31, 32, 133, 160 :: nat})"

text \<open>\<^verbatim>\<open>s.strip()\<close>: drop the whitespace at both ends.\<close>

definition strip :: "string \<Rightarrow> string" where
  "strip s = rev (dropWhile isspace (rev (dropWhile isspace s)))"

text \<open>\<^verbatim>\<open>s.split(",")\<close>: the pieces between the commas, empty pieces kept.\<close>

fun split_acc :: "char \<Rightarrow> string \<Rightarrow> string \<Rightarrow> string list" where
  "split_acc sep cur [] = [rev cur]"
| "split_acc sep cur (c # cs) =
     (if c = sep then rev cur # split_acc sep [] cs else split_acc sep (c # cur) cs)"

definition split_comma :: "string \<Rightarrow> string list" where
  "split_comma s = split_acc (CHR '','') [] s"

text \<open>\<^verbatim>\<open>sep.join(xs)\<close>\<close>

fun join :: "string \<Rightarrow> string list \<Rightarrow> string" where
  "join sep [] = []"
| "join sep [x] = x"
| "join sep (x # y # ys) = x @ sep @ join sep (y # ys)"

text \<open>\<^verbatim>\<open>s.replace(" ", "")\<close>: every space removed.\<close>

definition remove_spaces :: "string \<Rightarrow> string" where
  "remove_spaces s = filter (\<lambda>c. c \<noteq> CHR '' '') s"

text \<open>\<^verbatim>\<open>str(n)\<close> of a non-negative integer: its decimal digits.\<close>

definition digit_char :: "nat \<Rightarrow> char" where
  "digit_char d = ''0123456789'' ! d"

function str_nat :: "nat \<Rightarrow> string" where
  "str_nat n = (if n < 10 then [digit_char n] else str_nat (n div 10) @ [digit_char (n mod 10)])"
  by pat_completeness auto
termination
  by (relation "measure (\<lambda>n. n)") auto

declare str_nat.simps [simp del]

text \<open>
  A dictionary whose iteration order matters is an association list in insertion order:
  \<^verbatim>\<open>d[k] = v\<close> overwrites the value of a key that is present and appends a new key.
\<close>

fun dict_set :: "('k \<times> 'v) list \<Rightarrow> 'k \<Rightarrow> 'v \<Rightarrow> ('k \<times> 'v) list" where
  "dict_set [] k v = [(k, v)]"
| "dict_set ((k', v') # kvs) k v =
     (if k' = k then (k, v) # kvs else (k', v') # dict_set kvs k v)"

section \<open>Command line arguments and the world outside\<close>

text \<open>
  The namespace \<^verbatim>\<open>args\<close> that \<^verbatim>\<open>argparse\<close> returns. \<^verbatim>\<open>--ja\<close>, \<^verbatim>\<open>--corpus\<close> and
  \<^verbatim>\<open>--prefer-order\<close> are \<^verbatim>\<open>None\<close> when not given.
\<close>

record args =
  latin :: "string list"
  zh_tw :: string
  zh_cn :: string
  ja :: "string option"
  corpus :: "string list option"
  drop_tables :: "string list"
  out :: string
  out_name :: string
  out_subfamily :: string
  prefer_order :: "string option"
  add_latin1 :: bool
  add_cjk_punct :: bool
  add_jp_syllabaries :: bool
  add_halfwidth :: bool
  add_han_basic :: bool

text \<open>Truth value of an optional string (\<^verbatim>\<open>if args.ja:\<close>) and of an optional list.\<close>

fun truthy :: "'a list option \<Rightarrow> bool" where
  "truthy None = False"
| "truthy (Some xs) = (xs \<noteq> [])"

text \<open>
  What the script reads of a font through \<^verbatim>\<open>fontTools\<close>: the tags of the tables present
  (\<^verbatim>\<open>"glyf" in f\<close>), \<^verbatim>\<open>f["head"].unitsPerEm\<close>, the keys of its Unicode \<^verbatim>\<open>cmap\<close> subtables,
  the records of its \<^verbatim>\<open>name\<close> table and the length of its glyph order.
\<close>

record name_record =
  nameID :: nat
  platformID :: nat
  platEncID :: nat
  langID :: nat
  string_value :: string

record ttfont =
  tables :: "string set"
  unitsPerEm :: nat
  unicode_cmap :: "codepoint set"
  names :: "name_record list"
  glyph_count :: nat

text \<open>
  The collaborators: \<^verbatim>\<open>TTFont(path)\<close> on the input fonts (the font, or the error that
  \<^verbatim>\<open>fontTools\<close> raises: \<open>OSError\<close> on a missing file, \<open>TTLibError\<close> on a file that is not a
  font), \<^verbatim>\<open>open(p).read()\<close> on the corpus files (the decoded text), and the outcome of the
  three steps that write files: \<^verbatim>\<open>subset_font\<close>, \<^verbatim>\<open>run_pyftmerge\<close> (the merged font, or its
  \<^verbatim>\<open>RuntimeError\<close>) and \<^verbatim>\<open>font.save(path)\<close> at the end of \<^verbatim>\<open>set_font_name\<close>: the font as
  the file holds it afterwards, or the error raised. What \<^verbatim>\<open>fontTools\<close> does to a font
  while saving it (it compiles the name table in its own record order, and raises when
  a string cannot be encoded) is its own and is not fixed here.
\<close>

record env =
  open_font :: "string \<Rightarrow> error + ttfont"
  read_text :: "string \<rightharpoonup> uchar list"
  subset_raises :: "string \<Rightarrow> codepoint list \<Rightarrow> error option"
  pyftmerge :: "string list \<Rightarrow> error + ttfont"
  save_font :: "string \<Rightarrow> ttfont \<Rightarrow> error + ttfont"

section \<open>Codepoint set builder (\<^verbatim>\<open>build_target\<close>, lines 9-33 and 151-173)\<close>

definition ASCII_BASIC :: "codepoint set" where
  "ASCII_BASIC = {0x20 ..< 0x7F}"

definition LATIN_1_SUP :: "codepoint set" where
  "LATIN_1_SUP = {0x00A0 ..< 0x0100}"

definition CJK_PUNCT :: "codepoint \<times> codepoint" where "CJK_PUNCT = (0x3000, 0x303F)"
definition HIRAGANA :: "codepoint \<times> codepoint" where "HIRAGANA = (0x3040, 0x309F)"
definition KATAKANA :: "codepoint \<times> codepoint" where "KATAKANA = (0x30A0, 0x30FF)"
definition HALFWIDTH :: "codepoint \<times> codepoint" where "HALFWIDTH = (0xFF00, 0xFFEF)"
definition CJK_UNIFIED :: "codepoint \<times> codepoint" where "CJK_UNIFIED = (0x4E00, 0x9FFF)"
definition CJK_EXT_A :: "codepoint \<times> codepoint" where "CJK_EXT_A = (0x3400, 0x4DBF)"
definition CJK_COMPAT :: "codepoint \<times> codepoint" where "CJK_COMPAT = (0xF900, 0xFAFF)"

text \<open>\<^verbatim>\<open>add_range(s, *R)\<close>: \<^verbatim>\<open>s.update(range(lo, hi + 1))\<close>\<close>

definition add_range :: "codepoint set \<Rightarrow> codepoint \<times> codepoint \<Rightarrow> codepoint set" where
  "add_range s r = s \<union> {fst r ..< snd r + 1}"

text \<open>
  \<^verbatim>\<open>read_corpus_chars\<close>: the loop over the paths; a path that cannot be opened raises. The
  closing comprehension keeps the one-character strings, which every element of a string is.
\<close>

fun read_corpus_loop :: "(string \<rightharpoonup> uchar list) \<Rightarrow> string list \<Rightarrow> uchar set \<Rightarrow> error + uchar set" where
  "read_corpus_loop rd [] chars = Inr chars"
| "read_corpus_loop rd (p # ps) chars =
     (case rd p of
        None \<Rightarrow> Inl (OSError p)
      | Some text \<Rightarrow> read_corpus_loop rd ps (chars \<union> set text))"

definition read_corpus_chars :: "(string \<rightharpoonup> uchar list) \<Rightarrow> string list \<Rightarrow> error + uchar set" where
  "read_corpus_chars rd paths = read_corpus_loop rd paths {}"

definition chars_to_codepoints :: "uchar set \<Rightarrow> codepoint set" where
  "chars_to_codepoints chars = py_ord ` chars"

text \<open>The block flags of \<^verbatim>\<open>build_target\<close>, applied in the order of the source.\<close>

definition add_blocks :: "args \<Rightarrow> codepoint set \<Rightarrow> codepoint set" where
  "add_blocks a target0 =
     (let target1 = (if add_latin1 a then target0 \<union> LATIN_1_SUP else target0);
          target2 = (if add_cjk_punct a then add_range target1 CJK_PUNCT else target1);
          target3 = (if add_jp_syllabaries a
                     then add_range (add_range target2 HIRAGANA) KATAKANA else target2);
          target4 = (if add_halfwidth a then add_range target3 HALFWIDTH else target3);
          target5 = (if add_han_basic a
                     then add_range (add_range (add_range target4 CJK_UNIFIED) CJK_EXT_A) CJK_COMPAT
                     else target4)
      in target5)"

definition build_target :: "(string \<rightharpoonup> uchar list) \<Rightarrow> args \<Rightarrow> error + codepoint set" where
  "build_target rd a =
     (let target = {} \<union> ASCII_BASIC in
      if truthy (corpus a) then
        (case read_corpus_chars rd (case corpus a of Some ps \<Rightarrow> ps | None \<Rightarrow> []) of
           Inl e \<Rightarrow> Inl e
         | Inr corpus_chars \<Rightarrow> Inr (add_blocks a (target \<union> chars_to_codepoints corpus_chars)))
      else Inr (add_blocks a target))"

section \<open>Priority order resolver (\<^verbatim>\<open>expand_prefer_order\<close>, lines 133-149)\<close>

text \<open>The first loop builds \<^verbatim>\<open>expanded\<close>, the second one \<^verbatim>\<open>out\<close> with the set \<^verbatim>\<open>seen\<close>.\<close>

fun expand_loop :: "string list \<Rightarrow> string list \<Rightarrow> string list \<Rightarrow> string list" where
  "expand_loop [] latin_tags expanded = expanded"
| "expand_loop (t # ts) latin_tags expanded =
     (let t' = strip t in
      if t' = [] then expand_loop ts latin_tags expanded
      else if t' = ''latin'' then expand_loop ts latin_tags (expanded @ latin_tags)
      else expand_loop ts latin_tags (expanded @ [t']))"

fun dedup_loop :: "string list \<Rightarrow> string set \<Rightarrow> string list \<Rightarrow> string list" where
  "dedup_loop [] seen outl = outl"
| "dedup_loop (t # ts) seen outl =
     (if t \<notin> seen then dedup_loop ts (insert t seen) (outl @ [t])
      else dedup_loop ts seen outl)"

definition expand_prefer_order :: "string list \<Rightarrow> string list \<Rightarrow> string list" where
  "expand_prefer_order tokens latin_tags = dedup_loop (expand_loop tokens latin_tags []) {} []"

text \<open>
  The resolver as the specification words it, to compare with the loops above: trim every
  token, drop the empty ones, replace each \<^verbatim>\<open>latin\<close> by the latin tags, keep the first
  occurrence of every tag.
\<close>

fun dedup_first :: "string list \<Rightarrow> string list" where
  "dedup_first [] = []"
| "dedup_first (x # xs) = x # dedup_first (removeAll x xs)"

definition resolveOrder_spec :: "string list \<Rightarrow> string list \<Rightarrow> string list" where
  "resolveOrder_spec tokens latinTags =
     dedup_first (concat (map (\<lambda>t. if t = ''latin'' then latinTags else [t])
                              (filter (\<lambda>t. t \<noteq> []) (map strip tokens))))"

section \<open>The order of \<^verbatim>\<open>main\<close> (lines 254-272)\<close>

definition latin_tags_of :: "args \<Rightarrow> string list" where
  "latin_tags_of a = map (\<lambda>i. ''latin'' @ str_nat i) [0 ..< length (latin a)]"

text \<open>A dictionary built from pairs: a later pair overwrites an earlier one with its key.\<close>

definition dict_of :: "('k \<times> 'v) list \<Rightarrow> ('k \<rightharpoonup> 'v)" where
  "dict_of kvs = foldl (\<lambda>m kv. m(fst kv \<mapsto> snd kv)) Map.empty kvs"

definition font_map_of :: "args \<Rightarrow> (string \<rightharpoonup> string)" where
  "font_map_of a =
     (let m0 = dict_of (zip (latin_tags_of a) (latin a));
          m1 = m0(''zh-tw'' \<mapsto> zh_tw a, ''zh-cn'' \<mapsto> zh_cn a)
      in if truthy (ja a) then m1(''ja'' \<mapsto> (case ja a of Some p \<Rightarrow> p | None \<Rightarrow> [])) else m1)"

definition resolve_order :: "args \<Rightarrow> string list" where
  "resolve_order a =
     (if truthy (prefer_order a) then
        (let raw_tokens = map strip (split_comma (case prefer_order a of Some s \<Rightarrow> s | None \<Rightarrow> []))
         in expand_prefer_order raw_tokens (latin_tags_of a))
      else latin_tags_of a @ [''zh-tw'', ''zh-cn''] @ (if truthy (ja a) then [''ja''] else []))"

text \<open>\<^verbatim>\<open>t in font_map and font_map[t]\<close>: the tag is a key and its path is not empty.\<close>

definition usable_tag :: "(string \<rightharpoonup> string) \<Rightarrow> string \<Rightarrow> bool" where
  "usable_tag font_map t = (case font_map t of None \<Rightarrow> False | Some path \<Rightarrow> path \<noteq> [])"

definition main_order :: "args \<Rightarrow> string list" where
  "main_order a = filter (usable_tag (font_map_of a)) (resolve_order a)"

section \<open>Font compatibility validator (\<^verbatim>\<open>validate_fonts\<close>, lines 175-215)\<close>

text \<open>\<^verbatim>\<open>TTFont(font_map[tag])\<close>\<close>

definition load_font ::
  "(string \<Rightarrow> error + ttfont) \<Rightarrow> (string \<rightharpoonup> string) \<Rightarrow> string \<Rightarrow> error + ttfont" where
  "load_font opn font_map tag =
     (case font_map tag of
        None \<Rightarrow> Inl (KeyError tag)
      | Some path \<Rightarrow> opn path)"

text \<open>The \<^verbatim>\<open>if\<close>/\<^verbatim>\<open>elif\<close> chain that names the outline kind a font adds to \<^verbatim>\<open>outline_kinds\<close>.\<close>

definition outline_kind :: "ttfont \<Rightarrow> string" where
  "outline_kind f =
     (let has_glyf = (''glyf'' \<in> tables f);
          has_cff = ((''CFF '' \<in> tables f) \<or> (''CFF2'' \<in> tables f))
      in if has_glyf \<and> has_cff then ''mixed-in-one''
         else if has_glyf then ''glyf''
         else if has_cff then ''cff''
         else ''unknown'')"

record vstate =
  upems :: "(string \<times> nat) list"
  outline_kinds :: "string set"
  var_flags :: "(string \<times> bool) list"

fun validate_loop ::
  "(string \<Rightarrow> error + ttfont) \<Rightarrow> (string \<rightharpoonup> string) \<Rightarrow> string list \<Rightarrow> vstate \<Rightarrow> error + vstate" where
  "validate_loop opn font_map [] st = Inr st"
| "validate_loop opn font_map (tag # rest) st =
     (case load_font opn font_map tag of
        Inl e \<Rightarrow> Inl e
      | Inr f \<Rightarrow>
          validate_loop opn font_map rest
            \<lparr>upems = dict_set (upems st) tag (unitsPerEm f),
             outline_kinds = insert (outline_kind f) (outline_kinds st),
             var_flags = dict_set (var_flags st) tag (''fvar'' \<in> tables f)\<rparr>)"

definition upem_mismatch_prefix :: string where
  "upem_mismatch_prefix = ''unitsPerEm mismatch across inputs (must match for merge). Found: ''"

definition outline_mismatch_message :: string where
  "outline_mismatch_message =
     ''Mixed TrueType (glyf) and CFF/CFF2 inputs. Use all-TTF glyf fonts or all-CFF fonts.''"

definition variable_font_warning :: string where
  "variable_font_warning =
     ''WARNING: One or more inputs are variable fonts. Consider instancing to static fonts before merging.''"

text \<open>\<^verbatim>\<open>", ".join([f"{t}={u}" for t, u in upems.items()])\<close>\<close>

definition upem_listing :: "(string \<times> nat) list \<Rightarrow> string" where
  "upem_listing ups = join '', '' (map (\<lambda>(t, u). t @ ''='' @ str_nat u) ups)"

text \<open>The result of a run that does not raise is the list of the lines it prints.\<close>

definition validate_fonts ::
  "(string \<Rightarrow> error + ttfont) \<Rightarrow> (string \<rightharpoonup> string) \<Rightarrow> string list \<Rightarrow> error + string list" where
  "validate_fonts opn font_map order =
     (case validate_loop opn font_map order \<lparr>upems = [], outline_kinds = {}, var_flags = []\<rparr> of
        Inl e \<Rightarrow> Inl e
      | Inr st \<Rightarrow>
          if card (set (map snd (upems st))) > 1
          then Inl (SystemExit (upem_mismatch_prefix @ upem_listing (upems st)))
          else if ''glyf'' \<in> outline_kinds st \<and> ''cff'' \<in> outline_kinds st
          then Inl (SystemExit outline_mismatch_message)
          else if list_ex (\<lambda>b. b) (map snd (var_flags st))
          then Inr [variable_font_warning]
          else Inr [])"




section \<open>Ownership partition (\<^verbatim>\<open>main\<close>, lines 278-292)\<close>

text \<open>\<^verbatim>\<open>get_font_unicode_set\<close>: the keys of the Unicode subtables of the font at the path.\<close>

definition get_font_unicode_set ::
  "(string \<Rightarrow> error + ttfont) \<Rightarrow> string \<Rightarrow> error + codepoint set" where
  "get_font_unicode_set opn font_path =
     (case opn font_path of Inl err \<Rightarrow> Inl err | Inr font \<Rightarrow> Inr (unicode_cmap font))"

text \<open>\<^verbatim>\<open>support = {tag: get_font_unicode_set(font_map[tag]) for tag in order}\<close>\<close>

fun build_support ::
  "(string \<Rightarrow> error + ttfont) \<Rightarrow> (string \<rightharpoonup> string) \<Rightarrow> string list \<Rightarrow>
   (string \<rightharpoonup> codepoint set) \<Rightarrow> error + (string \<rightharpoonup> codepoint set)" where
  "build_support opn font_map [] support = Inr support"
| "build_support opn font_map (tag # rest) support =
     (case font_map tag of
        None \<Rightarrow> Inl (KeyError tag)
      | Some path \<Rightarrow>
          (case get_font_unicode_set opn path of
             Inl e \<Rightarrow> Inl e
           | Inr unicodes \<Rightarrow> build_support opn font_map rest (support(tag \<mapsto> unicodes))))"

text \<open>
  The inner loop \<^verbatim>\<open>for tag in order: if u in support[tag]: owner = tag; break\<close>.
  \<open>support\<close> is a dictionary, so a lookup of a missing tag raises.
\<close>

fun find_owner :: "string list \<Rightarrow> (string \<rightharpoonup> codepoint set) \<Rightarrow> codepoint \<Rightarrow> error + string option" where
  "find_owner [] support u = Inr None"
| "find_owner (tag # rest) support u =
     (case support tag of
        None \<Rightarrow> Inl (KeyError tag)
      | Some cov \<Rightarrow> if u \<in> cov then Inr (Some tag) else find_owner rest support u)"

text \<open>
  The outer loop over \<^verbatim>\<open>sorted(target)\<close>, threading the dictionary \<^verbatim>\<open>assigned\<close> and the
  counter \<^verbatim>\<open>unassigned\<close>. \<^verbatim>\<open>if owner:\<close> is false for \<^verbatim>\<open>None\<close> and for the empty string.
\<close>

fun partition_loop ::
  "codepoint list \<Rightarrow> string list \<Rightarrow> (string \<rightharpoonup> codepoint set) \<Rightarrow>
   (string \<rightharpoonup> codepoint set) \<times> nat \<Rightarrow> error + ((string \<rightharpoonup> codepoint set) \<times> nat)" where
  "partition_loop [] order support st = Inr st"
| "partition_loop (u # us) order support (assigned, unassigned) =
     (case find_owner order support u of
        Inl e \<Rightarrow> Inl e
      | Inr owner \<Rightarrow>
          if truthy owner then
            (case owner of
               Some tag \<Rightarrow>
                 (case assigned tag of
                    None \<Rightarrow> Inl (KeyError tag)
                  | Some s \<Rightarrow> partition_loop us order support (assigned(tag \<mapsto> insert u s), unassigned))
             | None \<Rightarrow> partition_loop us order support (assigned, unassigned + 1))
          else partition_loop us order support (assigned, unassigned + 1))"

text \<open>\<^verbatim>\<open>assigned = {tag: set() for tag in order}\<close>\<close>

definition init_assigned :: "string list \<Rightarrow> (string \<rightharpoonup> codepoint set)" where
  "init_assigned order = dict_of (map (\<lambda>tag. (tag, {})) order)"

definition main_partition ::
  "codepoint set \<Rightarrow> string list \<Rightarrow> (string \<rightharpoonup> codepoint set) \<Rightarrow>
   error + ((string \<rightharpoonup> codepoint set) \<times> nat)" where
  "main_partition target order support =
     partition_loop (sorted_list_of_set target) order support (init_assigned order, 0)"

text \<open>Vocabulary for the statements: what a tag covers, what it was given, what nobody covers.\<close>

definition covers :: "(string \<rightharpoonup> codepoint set) \<Rightarrow> codepoint \<Rightarrow> string \<Rightarrow> bool" where
  "covers support u tag = (case support tag of None \<Rightarrow> False | Some cov \<Rightarrow> u \<in> cov)"

definition owned :: "(string \<rightharpoonup> codepoint set) \<Rightarrow> string \<Rightarrow> codepoint set" where
  "owned assigned tag = (case assigned tag of None \<Rightarrow> {} | Some s \<Rightarrow> s)"

definition uncovered :: "codepoint set \<Rightarrow> string list \<Rightarrow> (string \<rightharpoonup> codepoint set) \<Rightarrow> codepoint set" where
  "uncovered target order support = {u \<in> target. \<not> list_ex (covers support u) order}"

text \<open>Reading a result of the partition without binding it.\<close>

definition result_owned ::
  "error + ((string \<rightharpoonup> codepoint set) \<times> nat) \<Rightarrow> string \<Rightarrow> codepoint set" where
  "result_owned r tag = (case r of Inl e \<Rightarrow> {} | Inr (assigned, n) \<Rightarrow> owned assigned tag)"

definition result_unassigned :: "error + ((string \<rightharpoonup> codepoint set) \<times> nat) \<Rightarrow> nat option" where
  "result_unassigned r = (case r of Inl e \<Rightarrow> None | Inr (assigned, n) \<Rightarrow> Some n)"

section \<open>Renamer (\<^verbatim>\<open>set_font_name\<close>, lines 105-131)\<close>

definition full_name_of :: "string \<Rightarrow> string \<Rightarrow> string" where
  "full_name_of family_name subfamily =
     (if subfamily \<noteq> ''Regular'' then family_name @ '' '' @ subfamily else family_name)"

definition ps_name_of :: "string \<Rightarrow> string \<Rightarrow> string" where
  "ps_name_of family_name subfamily = remove_spaces (full_name_of family_name subfamily)"

text \<open>The dictionary \<^verbatim>\<open>name_records\<close>.\<close>

definition name_records :: "string \<Rightarrow> string \<Rightarrow> (nat \<rightharpoonup> string)" where
  "name_records family_name subfamily =
     [1 \<mapsto> family_name,
      2 \<mapsto> subfamily,
      4 \<mapsto> full_name_of family_name subfamily,
      6 \<mapsto> ps_name_of family_name subfamily]"

text \<open>
  One turn of the loop over \<^verbatim>\<open>name_table.names\<close>. \<^verbatim>\<open>record.string\<close> is a plain attribute
  of the record, so the assignment inside \<^verbatim>\<open>try\<close> does not raise.
\<close>

definition rename_record :: "(nat \<rightharpoonup> string) \<Rightarrow> name_record \<Rightarrow> name_record" where
  "rename_record recs r =
     (case recs (nameID r) of None \<Rightarrow> r | Some s \<Rightarrow> r\<lparr>string_value := s\<rparr>)"

text \<open>The loop over \<^verbatim>\<open>name_table.names\<close>: the records in memory when the loop has ended.\<close>

definition rename_names :: "name_record list \<Rightarrow> string \<Rightarrow> string \<Rightarrow> name_record list" where
  "rename_names recs family_name subfamily =
     map (rename_record (name_records family_name subfamily)) recs"

text \<open>
  \<^verbatim>\<open>set_font_name\<close>: open the font at the path, take its name table (\<^verbatim>\<open>font["name"]\<close> raises
  when there is none), run the loop, save to the same path and print. The save stands
  outside the \<^verbatim>\<open>try\<close> of the loop: what it raises leaves the function, and nothing is
  printed then. The result is the font as the file holds it after the save, and the line
  printed.
\<close>

definition set_font_name ::
  "(string \<Rightarrow> error + ttfont) \<Rightarrow> (string \<Rightarrow> ttfont \<Rightarrow> error + ttfont) \<Rightarrow>
   string \<Rightarrow> string \<Rightarrow> string \<Rightarrow> error + (ttfont \<times> string)" where
  "set_font_name opn save font_path family_name subfamily =
     (case opn font_path of
        Inl err \<Rightarrow> Inl err
      | Inr font \<Rightarrow>
          if ''name'' \<notin> tables font then Inl (KeyError ''name'')
          else
            (case save font_path (font\<lparr>names := rename_names (names font) family_name subfamily\<rparr>) of
               Inl err \<Rightarrow> Inl err
             | Inr stored \<Rightarrow>
                 Inr (stored, ''Font renamed to: '' @ full_name_of family_name subfamily)))"

section \<open>The run (\<^verbatim>\<open>main\<close>, lines 252-333)\<close>

text \<open>
  In \<^verbatim>\<open>main\<close> the file at \<^verbatim>\<open>args.out\<close> is the one the merge has just written, so opening it
  gives the merged font.

  The work a run does outside its own memory, in the order it does it: opening the fonts
  to validate them, reading the corpus, reading the coverage of the fonts, subsetting a
  font to its codepoints, merging, renaming and counting the glyphs of the output.
\<close>

datatype event =
    Validate "string list"
  | ReadCorpus "string list"
  | ReadCoverage "string list"
  | Subset string "codepoint list"
  | Merge "string list"
  | Rename string string string
  | CountGlyphs string

record report =
  final_order :: "string list"
  target_size :: nat
  assigned_counts :: "(string \<times> nat) list"
  unassigned_count :: nat
  glyphs :: nat
  glyph_limit_warning :: bool
  output_font :: ttfont

text \<open>
  The loop \<^verbatim>\<open>for tag in order\<close> of the \<^verbatim>\<open>try\<close> block: a tag with nothing assigned is
  skipped, any other is subset to \<^verbatim>\<open>sorted(keep)\<close> into \<^verbatim>\<open>tmp_dir/tag.subset.ttf\<close>.
\<close>

fun subset_loop ::
  "env \<Rightarrow> string \<Rightarrow> string list \<Rightarrow> (string \<rightharpoonup> codepoint set) \<Rightarrow> event list \<Rightarrow> string list \<Rightarrow>
   (string \<times> nat) list \<Rightarrow> event list \<times> (error + (string list \<times> (string \<times> nat) list))" where
  "subset_loop e tmp_dir [] assigned evs subset_paths counts = (evs, Inr (subset_paths, counts))"
| "subset_loop e tmp_dir (tag # rest) assigned evs subset_paths counts =
     (case assigned tag of
        None \<Rightarrow> (evs, Inl (KeyError tag))
      | Some keep \<Rightarrow>
          if keep = {} then subset_loop e tmp_dir rest assigned evs subset_paths (counts @ [(tag, 0)])
          else
            (let keep_sorted = sorted_list_of_set keep;
                 evs' = evs @ [Subset tag keep_sorted]
             in case subset_raises e tag keep_sorted of
                  Some err \<Rightarrow> (evs', Inl err)
                | None \<Rightarrow>
                    subset_loop e tmp_dir rest assigned evs'
                      (subset_paths @ [tmp_dir @ ''/'' @ tag @ ''.subset.ttf''])
                      (counts @ [(tag, card keep)])))"

definition no_valid_fonts_message :: string where
  "no_valid_fonts_message = ''No valid fonts in prefer order.''"

definition main :: "env \<Rightarrow> string \<Rightarrow> args \<Rightarrow> event list \<times> (error + report)" where
  "main e tmp_dir a =
     (let font_map = font_map_of a; order = main_order a in
      if order = [] then ([], Inl (SystemExit no_valid_fonts_message))
      else
        (case validate_fonts (open_font e) font_map order of
           Inl err \<Rightarrow> ([Validate order], Inl err)
         | Inr warnings \<Rightarrow>
        (case build_target (read_text e) a of
           Inl err \<Rightarrow> ([Validate order, ReadCorpus (case corpus a of Some ps \<Rightarrow> ps | None \<Rightarrow> [])], Inl err)
         | Inr target \<Rightarrow>
        (let evs0 = [Validate order] @
                    (if truthy (corpus a)
                     then [ReadCorpus (case corpus a of Some ps \<Rightarrow> ps | None \<Rightarrow> [])] else []) @
                    [ReadCoverage order]
         in
        (case build_support (open_font e) font_map order Map.empty of
           Inl err \<Rightarrow> (evs0, Inl err)
         | Inr support \<Rightarrow>
        (case main_partition target order support of
           Inl err \<Rightarrow> (evs0, Inl err)
         | Inr (assigned, unassigned) \<Rightarrow>
        (case subset_loop e tmp_dir order assigned evs0 [] [] of
           (evs1, Inl err) \<Rightarrow> (evs1, Inl err)
         | (evs1, Inr (subset_paths, counts)) \<Rightarrow>
        (case pyftmerge e subset_paths of
           Inl err \<Rightarrow> (evs1 @ [Merge subset_paths], Inl err)
         | Inr merged \<Rightarrow>
        (case set_font_name (\<lambda>p. if p = out a then Inr merged else open_font e p) (save_font e)
                (out a) (out_name a) (out_subfamily a) of
           Inl err \<Rightarrow>
             (evs1 @ [Merge subset_paths, Rename (out a) (out_name a) (out_subfamily a)], Inl err)
         | Inr (stored, line) \<Rightarrow>
             (let n = glyph_count stored
              in (evs1 @ [Merge subset_paths, Rename (out a) (out_name a) (out_subfamily a),
                          CountGlyphs (out a)],
                  Inr \<lparr>final_order = order, target_size = card target,
                       assigned_counts = counts, unassigned_count = unassigned,
                       glyphs = n, glyph_limit_warning = (n \<ge> 65535),
                       output_font = stored\<rparr>)))))))))))"

text \<open>
  The exit status of the process: \<^verbatim>\<open>SystemExit\<close> with a message and every uncaught
  exception end it with status 1, a run that returns with status 0.
\<close>

definition exit_status :: "error + 'a \<Rightarrow> nat" where
  "exit_status r = (case r of Inl e \<Rightarrow> 1 | Inr x \<Rightarrow> 0)"

section \<open>Vocabulary for the validator\<close>





section \<open>A concrete run\<close>

text \<open>
  The arguments of a run with two Latin fonts and the two mandatory CJK fonts, every
  option at its default.
\<close>

definition example_args :: args where
  "example_args =
     \<lparr>latin = [''L0.ttf'', ''L1.ttf''], zh_tw = ''TW.otf'', zh_cn = ''CN.otf'', ja = None,
      corpus = None, drop_tables = [], out = ''merged_common.ttf'',
      out_name = ''Noto Serif CJK'', out_subfamily = ''Light'', prefer_order = None,
      add_latin1 = False, add_cjk_punct = False, add_jp_syllabaries = False,
      add_halfwidth = False, add_han_basic = False\<rparr>"





text \<open>
  A world in which nothing can be read, no subsetting fails, the merge tool produces no
  file and a save stores the font as it is.
\<close>

definition empty_env :: env where
  "empty_env =
     \<lparr>open_font = (\<lambda>p. Inl (OSError p)), read_text = Map.empty,
      subset_raises = (\<lambda>tag keep. None),
      pyftmerge = (\<lambda>paths. Inl (RuntimeError ''pyftmerge failed.'')),
      save_font = (\<lambda>p font. Inr font)\<rparr>"

text \<open>
  A merged font whose name table has a PostScript name, a full name, a unique identifier
  (name 3), a subfamily and a family, in this order; a save that stores the records in
  the order of their name identifiers, and a save that raises.
\<close>

definition name_rec :: "nat \<Rightarrow> string \<Rightarrow> name_record" where
  "name_rec i s = \<lparr>nameID = i, platformID = 3, platEncID = 1, langID = 1033, string_value = s\<rparr>"

definition named_font :: ttfont where
  "named_font =
     \<lparr>tables = {''glyf'', ''head'', ''cmap'', ''name''}, unitsPerEm = 1000,
      unicode_cmap = {0x41},
      names = [name_rec 6 ''Roboto-Regular'', name_rec 4 ''Roboto'', name_rec 3 ''Roboto:2017'',
               name_rec 2 ''Regular'', name_rec 1 ''Roboto''],
      glyph_count = 2\<rparr>"

definition sorting_save :: "string \<Rightarrow> ttfont \<Rightarrow> error + ttfont" where
  "sorting_save p font = Inr (font\<lparr>names := sort_key nameID (names font)\<rparr>)"

definition refusing_save :: "string \<Rightarrow> ttfont \<Rightarrow> error + ttfont" where
  "refusing_save p font = Inl (UnicodeEncodeError ''mac_roman'')"

section \<open>Properties of the ownership partition\<close>

lemma foldl_upd_dom:
  "dom (foldl (\<lambda>m kv. m(fst kv \<mapsto> snd kv)) m0 kvs) = dom m0 \<union> fst ` set kvs"
  by (induction kvs arbitrary: m0) auto

lemma dom_dict_of: "dom (dict_of kvs) = fst ` set kvs"
  by (simp add: dict_of_def foldl_upd_dom)

lemma foldl_upd_const:
  "(\<And>k v. m0 k = Some v \<Longrightarrow> v = c) \<Longrightarrow> (\<And>kv. kv \<in> set kvs \<Longrightarrow> snd kv = c) \<Longrightarrow>
   foldl (\<lambda>m kv. m(fst kv \<mapsto> snd kv)) m0 kvs k = Some v \<Longrightarrow> v = c"
proof (induction kvs arbitrary: m0)
  case Nil
  then show ?case by simp
next
  case (Cons kv kvs)
  show ?case
  proof (rule Cons.IH[of "m0(fst kv \<mapsto> snd kv)"])
    show "\<And>k v. (m0(fst kv \<mapsto> snd kv)) k = Some v \<Longrightarrow> v = c"
      using Cons.prems(1,2) by (auto split: if_splits)
    show "\<And>x. x \<in> set kvs \<Longrightarrow> snd x = c" using Cons.prems(2) by simp
    show "foldl (\<lambda>m kv. m(fst kv \<mapsto> snd kv)) (m0(fst kv \<mapsto> snd kv)) kvs k = Some v"
      using Cons.prems(3) by (simp only: foldl.simps)
  qed
qed

lemma dom_init_assigned: "dom (init_assigned order) = set order"
  by (simp add: init_assigned_def dom_dict_of image_image)

lemma owned_init_assigned: "owned (init_assigned order) tag = {}"
proof (cases "init_assigned order tag")
  case None
  then show ?thesis by (simp add: owned_def)
next
  case (Some s)
  have "s = {}"
  proof (rule foldl_upd_const[of Map.empty "{}" "map (\<lambda>tag. (tag, {})) order" tag s])
    show "\<And>k v. Map.empty k = Some v \<Longrightarrow> v = {}" by simp
    show "\<And>kv. kv \<in> set (map (\<lambda>tag. (tag, {})) order) \<Longrightarrow> snd kv = {}" by auto
    show "foldl (\<lambda>m kv. m(fst kv \<mapsto> snd kv)) Map.empty (map (\<lambda>tag. (tag, {})) order) tag = Some s"
      using Some by (simp add: init_assigned_def dict_of_def)
  qed
  with Some show ?thesis by (simp add: owned_def)
qed

lemma find_owner_find:
  "set order \<subseteq> dom support \<Longrightarrow> find_owner order support u = Inr (List.find (covers support u) order)"
  by (induction order) (auto simp: covers_def split: option.splits)

lemma find_None_list_ex:
  "List.find (covers support u) order = None \<longleftrightarrow> \<not> list_ex (covers support u) order"
  by (auto simp: find_None_iff list_ex_iff)

lemma find_Some_covers:
  "List.find (covers support u) order = Some tag \<Longrightarrow> tag \<in> set order \<and> covers support u tag"
  by (auto simp: find_Some_iff)

lemma partition_loop_char:
  assumes "set order \<subseteq> dom support" "[] \<notin> set order" "dom assigned = set order"
  shows "\<exists>assigned'. partition_loop us order support (assigned, n) =
            Inr (assigned', n + length (filter (\<lambda>u. List.find (covers support u) order = None) us))
          \<and> dom assigned' = set order
          \<and> (\<forall>tag. owned assigned' tag =
                owned assigned tag \<union> {u \<in> set us. List.find (covers support u) order = Some tag})"
  using assms
proof (induction us arbitrary: assigned n)
  case Nil
  then show ?case by simp
next
  case (Cons u us)
  show ?case
  proof (cases "List.find (covers support u) order")
    case None
    from Cons.IH[OF Cons.prems, of "n + 1"] None Cons.prems show ?thesis
      by (auto simp: find_owner_find)
  next
    case (Some tag)
    then have tin: "tag \<in> set order" by (auto simp: find_Some_iff)
    with Cons.prems have tne: "tag \<noteq> []" by auto
    from tin Cons.prems obtain s where s: "assigned tag = Some s" by blast
    have d: "dom (assigned(tag \<mapsto> insert u s)) = set order"
      using Cons.prems tin by auto
    from Cons.IH[OF Cons.prems(1,2) d, of n] obtain a' where
      a': "partition_loop us order support (assigned(tag \<mapsto> insert u s), n) =
            Inr (a', n + length (filter (\<lambda>u. List.find (covers support u) order = None) us))"
        "dom a' = set order"
        "\<forall>t. owned a' t = owned (assigned(tag \<mapsto> insert u s)) t
             \<union> {u \<in> set us. List.find (covers support u) order = Some t}"
      by blast
    have "\<forall>t. owned a' t = owned assigned t
             \<union> {v \<in> set (u # us). List.find (covers support v) order = Some t}"
      using a'(3) s Some by (auto simp: owned_def split: if_splits)
    with a'(1,2) Some s tne Cons.prems show ?thesis
      by (simp add: find_owner_find)
  qed
qed

lemma main_partition_char:
  assumes "finite target" "set order \<subseteq> dom support" "[] \<notin> set order"
  shows "\<exists>assigned. main_partition target order support =
            Inr (assigned, card (uncovered target order support))
          \<and> dom assigned = set order
          \<and> (\<forall>tag. owned assigned tag =
                {u \<in> target. List.find (covers support u) order = Some tag})"
proof -
  let ?us = "sorted_list_of_set target"
  let ?none = "\<lambda>u. List.find (covers support u) order = None"
  have len: "length (filter ?none ?us) = card (uncovered target order support)"
  proof -
    have "distinct (filter ?none ?us)" by simp
    then have "length (filter ?none ?us) = card (set (filter ?none ?us))"
      by (simp only: distinct_card)
    also have "set (filter ?none ?us) = uncovered target order support"
      using assms(1) by (auto simp: uncovered_def find_None_list_ex)
    finally show ?thesis .
  qed
  from partition_loop_char[OF assms(2,3) dom_init_assigned, of ?us 0]
  show ?thesis
    unfolding main_partition_def using assms(1) len
    by (auto simp: owned_init_assigned)
qed

lemma sorted_list_of_set_sorted_list:
  "sorted xs \<Longrightarrow> distinct xs \<Longrightarrow> sorted_list_of_set (set xs) = xs"
  by (rule sorted_list_of_set.idem_if_sorted_distinct)

text \<open>
  C1. For a finite target set, an order of non-empty tags (every resolved order is one,
  see \<open>main_order_tags_nonempty\<close>) and a coverage dictionary defined on the order, the
  partition loop returns; the sets it assigns to different tags are disjoint; together
  with the target codepoints that no font of the order covers they make up the target
  set, and no assigned codepoint is among the uncovered ones; the counter
  \<^verbatim>\<open>unassigned\<close> is the number of uncovered codepoints.
\<close>

theorem partition_disjoint_exhaustive:
  assumes "finite target" and "set order \<subseteq> dom support" and "[] \<notin> set order"
  shows "\<exists>assigned n. main_partition target order support = Inr (assigned, n)
          \<and> dom assigned = set order
          \<and> (\<forall>t1 t2. t1 \<noteq> t2 \<longrightarrow> owned assigned t1 \<inter> owned assigned t2 = {})
          \<and> (\<Union>tag \<in> set order. owned assigned tag) \<union> uncovered target order support = target
          \<and> (\<Union>tag \<in> set order. owned assigned tag) \<inter> uncovered target order support = {}
          \<and> n = card (uncovered target order support)"
proof -
  from main_partition_char[OF assms] obtain assigned where
    r: "main_partition target order support = Inr (assigned, card (uncovered target order support))"
    and d: "dom assigned = set order"
    and o: "\<And>tag. owned assigned tag = {u \<in> target. List.find (covers support u) order = Some tag}"
    by blast
  have disj: "\<forall>t1 t2. t1 \<noteq> t2 \<longrightarrow> owned assigned t1 \<inter> owned assigned t2 = {}"
    by (auto simp: o)
  have un: "(\<Union>tag \<in> set order. owned assigned tag) \<union> uncovered target order support = target"
  proof
    show "(\<Union>tag \<in> set order. owned assigned tag) \<union> uncovered target order support \<subseteq> target"
      by (auto simp: o uncovered_def)
    show "target \<subseteq> (\<Union>tag \<in> set order. owned assigned tag) \<union> uncovered target order support"
    proof
      fix u assume u: "u \<in> target"
      show "u \<in> (\<Union>tag \<in> set order. owned assigned tag) \<union> uncovered target order support"
      proof (cases "List.find (covers support u) order")
        case None
        with u show ?thesis by (simp add: uncovered_def find_None_list_ex)
      next
        case (Some tag)
        with u find_Some_covers[OF Some] show ?thesis by (auto simp: o)
      qed
    qed
  qed
  have int: "(\<Union>tag \<in> set order. owned assigned tag) \<inter> uncovered target order support = {}"
    by (auto simp: o uncovered_def list_ex_iff dest: find_Some_covers)
  from r d disj un int show ?thesis by blast
qed

text \<open>
  The example of the specification: fonts A (covering 0x41, 0x42) and B (covering 0x42,
  0x43), order A, B, target 0x41 to 0x44.
\<close>

theorem partition_disjoint_exhaustive_witness:
  "finite {0x41, 0x42, 0x43, 0x44 :: int}
   \<and> set [''A'', ''B''] \<subseteq> dom [''A'' \<mapsto> {0x41, 0x42 :: int}, ''B'' \<mapsto> {0x42, 0x43}]
   \<and> [] \<notin> set [''A'', ''B'']
   \<and> (\<exists>assigned n.
         main_partition {0x41, 0x42, 0x43, 0x44} [''A'', ''B'']
           [''A'' \<mapsto> {0x41, 0x42}, ''B'' \<mapsto> {0x42, 0x43}] = Inr (assigned, n)
         \<and> dom assigned = set [''A'', ''B'']
         \<and> owned assigned ''A'' \<inter> owned assigned ''B'' = {}
         \<and> (owned assigned ''A'' \<union> owned assigned ''B'')
             \<union> uncovered {0x41, 0x42, 0x43, 0x44} [''A'', ''B'']
                 [''A'' \<mapsto> {0x41, 0x42}, ''B'' \<mapsto> {0x42, 0x43}] = {0x41, 0x42, 0x43, 0x44}
         \<and> (owned assigned ''A'' \<union> owned assigned ''B'')
             \<inter> uncovered {0x41, 0x42, 0x43, 0x44} [''A'', ''B'']
                 [''A'' \<mapsto> {0x41, 0x42}, ''B'' \<mapsto> {0x42, 0x43}] = {}
         \<and> n = card (uncovered {0x41, 0x42, 0x43, 0x44} [''A'', ''B'']
                 [''A'' \<mapsto> {0x41, 0x42}, ''B'' \<mapsto> {0x42, 0x43}]))"
proof -
  let ?T = "{0x41, 0x42, 0x43, 0x44 :: int}"
  let ?O = "[''A'', ''B'']"
  let ?S = "[''A'' \<mapsto> {0x41, 0x42 :: int}, ''B'' \<mapsto> {0x42, 0x43}]"
  have h1: "finite ?T" by simp
  have h2: "set ?O \<subseteq> dom ?S" by simp
  have h3: "[] \<notin> set ?O" by simp
  from partition_disjoint_exhaustive[OF h1 h2 h3] obtain assigned n where
    a: "main_partition ?T ?O ?S = Inr (assigned, n)"
       "dom assigned = set ?O"
       "\<forall>t1 t2. t1 \<noteq> t2 \<longrightarrow> owned assigned t1 \<inter> owned assigned t2 = {}"
       "(\<Union>tag \<in> set ?O. owned assigned tag) \<union> uncovered ?T ?O ?S = ?T"
       "(\<Union>tag \<in> set ?O. owned assigned tag) \<inter> uncovered ?T ?O ?S = {}"
       "n = card (uncovered ?T ?O ?S)"
    by (elim exE conjE)
  have ne: "''A'' \<noteq> ''B''" by simp
  from a(3) ne have b: "owned assigned ''A'' \<inter> owned assigned ''B'' = {}"
    by (elim allE impE)
  from a(4) have c: "(owned assigned ''A'' \<union> owned assigned ''B'') \<union> uncovered ?T ?O ?S = ?T"
    by (simp only: set_simps UN_insert UN_empty Un_empty_right)
  from a(5) have d: "(owned assigned ''A'' \<union> owned assigned ''B'') \<inter> uncovered ?T ?O ?S = {}"
    by (simp only: set_simps UN_insert UN_empty Un_empty_right)
  show ?thesis
    apply (intro conjI h1 h2 h3)
    apply (rule exI[of _ assigned], rule exI[of _ n])
    apply (intro conjI a(1) a(2) b c d a(6))
    done
qed

text \<open>
  C2, as stated, fails: with the order latin0, zh-tw, zh-cn and three fonts that all
  cover 0x41, the two fonts zh-tw and zh-cn both cover it and zh-tw is the earlier of the
  two, yet the codepoint goes to latin0 and zh-tw is assigned nothing.
\<close>

theorem first_match_two_fonts_counterexample:
  "covers [''latin0'' \<mapsto> {0x41}, ''zh-tw'' \<mapsto> {0x41}, ''zh-cn'' \<mapsto> {0x41}] 0x41 ''zh-tw''
   \<and> covers [''latin0'' \<mapsto> {0x41}, ''zh-tw'' \<mapsto> {0x41}, ''zh-cn'' \<mapsto> {0x41}] 0x41 ''zh-cn''
   \<and> result_owned (main_partition {0x41} [''latin0'', ''zh-tw'', ''zh-cn'']
        [''latin0'' \<mapsto> {0x41}, ''zh-tw'' \<mapsto> {0x41}, ''zh-cn'' \<mapsto> {0x41}]) ''zh-tw'' = {}
   \<and> result_owned (main_partition {0x41} [''latin0'', ''zh-tw'', ''zh-cn'']
        [''latin0'' \<mapsto> {0x41}, ''zh-tw'' \<mapsto> {0x41}, ''zh-cn'' \<mapsto> {0x41}]) ''latin0'' = {0x41}"
proof -
  have srt: "sorted_list_of_set {0x41 :: int} = [0x41]" by simp
  have ini: "init_assigned [''latin0'', ''zh-tw'', ''zh-cn'']
      = [''latin0'' \<mapsto> {}, ''zh-tw'' \<mapsto> {}, ''zh-cn'' \<mapsto> {}]"
    by (simp add: init_assigned_def dict_of_def)
  show ?thesis
    by (simp add: covers_def main_partition_def srt ini result_owned_def owned_def)
qed

text \<open>
  C2, amended. A target codepoint covered by two fonts of a resolved order goes to the
  first font of the order that covers it, which stands at or before the earlier of the
  two: it goes to the earlier of the two when no font before that one covers it, and it
  never goes to the later of the two (the tags of a resolved order being distinct). No
  codepoint is assigned to a font whose coverage does not contain it. Coverage is a set,
  so nothing depends on an iteration order.
\<close>

theorem first_match_wins:
  assumes "finite target" and "set order \<subseteq> dom support" and "[] \<notin> set order"
    and "u \<in> target" and "i < j" and "j < length order"
    and "covers support u (order ! i)" and "covers support u (order ! j)"
  shows "\<exists>assigned n. main_partition target order support = Inr (assigned, n)
          \<and> (\<exists>k\<le>i. u \<in> owned assigned (order ! k) \<and> covers support u (order ! k)
                    \<and> (\<forall>m<k. \<not> covers support u (order ! m)))
          \<and> ((\<forall>m<i. \<not> covers support u (order ! m)) \<longrightarrow> u \<in> owned assigned (order ! i))
          \<and> (distinct order \<longrightarrow> u \<notin> owned assigned (order ! j))
          \<and> (\<forall>v tag. v \<in> owned assigned tag \<longrightarrow> v \<in> target \<and> covers support v tag)"
proof -
  from main_partition_char[OF assms(1,2,3)] obtain assigned where
    r: "main_partition target order support = Inr (assigned, card (uncovered target order support))"
    and o: "\<And>tag. owned assigned tag = {u \<in> target. List.find (covers support u) order = Some tag}"
    by blast
  have il: "i < length order" using assms(5,6) by simp
  have "List.find (covers support u) order \<noteq> None"
    using assms(7) nth_mem[OF il] unfolding find_None_iff by blast
  then obtain t where t: "List.find (covers support u) order = Some t" by blast
  then obtain k where k: "k < length order" "covers support u (order ! k)" "t = order ! k"
    "\<forall>m<k. \<not> covers support u (order ! m)"
    by (auto simp: find_Some_iff)
  have ki: "k \<le> i"
  proof (rule ccontr)
    assume "\<not> k \<le> i"
    then have "i < k" by simp
    with k(4) assms(7) show False by blast
  qed
  have own: "u \<in> owned assigned (order ! k)" using t k(3) assms(4) by (simp add: o)
  have first: "\<exists>k\<le>i. u \<in> owned assigned (order ! k) \<and> covers support u (order ! k)
                    \<and> (\<forall>m<k. \<not> covers support u (order ! m))"
    using ki own k(2,4) by blast
  have early: "(\<forall>m<i. \<not> covers support u (order ! m)) \<longrightarrow> u \<in> owned assigned (order ! i)"
  proof
    assume n: "\<forall>m<i. \<not> covers support u (order ! m)"
    have "k = i"
    proof (rule ccontr)
      assume "k \<noteq> i"
      with ki have "k < i" by simp
      with n k(2) show False by blast
    qed
    with own show "u \<in> owned assigned (order ! i)" by simp
  qed
  have late: "distinct order \<longrightarrow> u \<notin> owned assigned (order ! j)"
  proof
    assume d: "distinct order"
    have "k \<noteq> j" using ki assms(5) by simp
    with d k(1) assms(6) have "order ! k \<noteq> order ! j" by (simp add: nth_eq_iff_index_eq)
    with t k(3) show "u \<notin> owned assigned (order ! j)" by (auto simp: o)
  qed
  have sound: "\<forall>v tag. v \<in> owned assigned tag \<longrightarrow> v \<in> target \<and> covers support v tag"
    by (auto simp: o dest: find_Some_covers)
  from r first early late sound show ?thesis by blast
qed

theorem first_match_wins_witness:
  "finite {0x41, 0x42, 0x43, 0x44 :: int}
   \<and> set [''A'', ''B''] \<subseteq> dom [''A'' \<mapsto> {0x41, 0x42 :: int}, ''B'' \<mapsto> {0x42, 0x43}]
   \<and> [] \<notin> set [''A'', ''B'']
   \<and> (0x42 :: int) \<in> {0x41, 0x42, 0x43, 0x44}
   \<and> (0 :: nat) < 1 \<and> 1 < length [''A'', ''B'']
   \<and> covers [''A'' \<mapsto> {0x41, 0x42}, ''B'' \<mapsto> {0x42, 0x43}] 0x42 ([''A'', ''B''] ! 0)
   \<and> covers [''A'' \<mapsto> {0x41, 0x42}, ''B'' \<mapsto> {0x42, 0x43}] 0x42 ([''A'', ''B''] ! 1)
   \<and> (\<exists>assigned n.
         main_partition {0x41, 0x42, 0x43, 0x44} [''A'', ''B'']
           [''A'' \<mapsto> {0x41, 0x42}, ''B'' \<mapsto> {0x42, 0x43}] = Inr (assigned, n)
         \<and> 0x42 \<in> owned assigned ''A'' \<and> 0x42 \<notin> owned assigned ''B'')"
proof -
  let ?T = "{0x41, 0x42, 0x43, 0x44 :: int}"
  let ?O = "[''A'', ''B'']"
  let ?S = "[''A'' \<mapsto> {0x41, 0x42 :: int}, ''B'' \<mapsto> {0x42, 0x43}]"
  have h1: "finite ?T" by simp
  have h2: "set ?O \<subseteq> dom ?S" by simp
  have h3: "[] \<notin> set ?O" by simp
  have h4: "(0x42 :: int) \<in> ?T" by simp
  have h5: "(0 :: nat) < 1" by simp
  have h6: "1 < length ?O" by simp
  have h7: "covers ?S 0x42 (?O ! 0)" by (simp add: covers_def)
  have h8: "covers ?S 0x42 (?O ! 1)" by (simp add: covers_def)
  from first_match_wins[OF h1 h2 h3 h4 h5 h6 h7 h8] obtain assigned n where
    a: "main_partition ?T ?O ?S = Inr (assigned, n)"
       "(\<forall>m<0. \<not> covers ?S 0x42 (?O ! m)) \<longrightarrow> 0x42 \<in> owned assigned (?O ! 0)"
       "distinct ?O \<longrightarrow> 0x42 \<notin> owned assigned (?O ! 1)"
    by (elim exE conjE)
  from a(2) have b: "0x42 \<in> owned assigned ''A''" by simp
  from a(3) have c: "0x42 \<notin> owned assigned ''B''" by simp
  show ?thesis
    apply (intro conjI h1 h2 h3 h4 h5 h6 h7 h8)
    apply (rule exI[of _ assigned], rule exI[of _ n])
    apply (intro conjI a(1) b c)
    done
qed

section \<open>Properties of the priority order resolver\<close>

lemma expand_loop_concat:
  "expand_loop tokens latin_tags expanded =
     expanded @ concat (map (\<lambda>t. if t = ''latin'' then latin_tags else [t])
                            (filter (\<lambda>t. t \<noteq> []) (map strip tokens)))"
  by (induction tokens arbitrary: expanded) (simp_all add: Let_def)

lemma removeAll_filter_seen:
  "removeAll t (filter (\<lambda>x. x \<notin> seen) ts) = filter (\<lambda>x. x \<notin> insert t seen) ts"
  by (induction ts) auto

lemma dedup_loop_dedup_first:
  "dedup_loop ts seen outl = outl @ dedup_first (filter (\<lambda>x. x \<notin> seen) ts)"
proof (induction ts arbitrary: seen outl)
  case Nil
  then show ?case by simp
next
  case (Cons t ts)
  show ?case
  proof (cases "t \<in> seen")
    case True
    then show ?thesis by (simp add: Cons.IH)
  next
    case False
    then show ?thesis by (simp add: Cons.IH removeAll_filter_seen)
  qed
qed

lemma set_dedup_first: "set (dedup_first xs) = set xs"
  by (induction xs rule: dedup_first.induct) auto

lemma distinct_dedup_first: "distinct (dedup_first xs)"
  by (induction xs rule: dedup_first.induct) (auto simp: set_dedup_first)

lemma expand_prefer_order_eq_spec:
  "expand_prefer_order tokens latin_tags = resolveOrder_spec tokens latin_tags"
  by (simp add: expand_prefer_order_def resolveOrder_spec_def expand_loop_concat
      dedup_loop_dedup_first)

lemma distinct_expand_prefer_order: "distinct (expand_prefer_order tokens latin_tags)"
  by (simp add: expand_prefer_order_eq_spec resolveOrder_spec_def distinct_dedup_first)

lemma set_expand_prefer_order:
  "set (expand_prefer_order tokens latin_tags) =
     (\<Union>t \<in> {t \<in> strip ` set tokens. t \<noteq> []}. if t = ''latin'' then set latin_tags else {t})"
  by (auto simp: expand_prefer_order_eq_spec resolveOrder_spec_def set_dedup_first split: if_splits)

lemma strip_plain_tokens:
  "strip ''latin'' = ''latin''" "strip ''zh-tw'' = ''zh-tw''"
  by (simp_all add: strip_def isspace_def)

lemma dropWhile_all: "list_all P xs \<Longrightarrow> dropWhile P (xs @ ys) = dropWhile P ys"
  by (induction xs) auto

lemma dropWhile_none: "ys = [] \<or> \<not> P (hd ys) \<Longrightarrow> dropWhile P ys = ys"
  by (cases ys) auto

text \<open>
  \<open>strip\<close> is trimming: the string is a run of whitespace, the stripped string, and a run
  of whitespace; the stripped string neither starts nor ends with whitespace.
\<close>

lemma strip_decomposes:
  "\<exists>pre post. s = pre @ strip s @ post \<and> list_all isspace pre \<and> list_all isspace post"
proof -
  let ?d = "dropWhile isspace s"
  have a: "s = takeWhile isspace s @ ?d" by simp
  have "rev ?d = takeWhile isspace (rev ?d) @ dropWhile isspace (rev ?d)" by simp
  then have "rev (rev ?d) = rev (takeWhile isspace (rev ?d) @ dropWhile isspace (rev ?d))"
    by (simp only:)
  then have b: "?d = strip s @ rev (takeWhile isspace (rev ?d))"
    unfolding strip_def by (simp only: rev_rev_ident rev_append)
  have p: "list_all isspace (takeWhile isspace s)"
    by (auto simp: list_all_iff dest: set_takeWhileD)
  have q: "list_all isspace (rev (takeWhile isspace (rev ?d)))"
    by (auto simp: list_all_iff dest: set_takeWhileD)
  from a b have "s = takeWhile isspace s @ strip s @ rev (takeWhile isspace (rev ?d))"
    by simp
  with p q show ?thesis by blast
qed

lemma strip_ends:
  "strip s = [] \<or> (\<not> isspace (hd (strip s)) \<and> \<not> isspace (last (strip s)))"
proof (cases "strip s = []")
  case True
  then show ?thesis by simp
next
  case False
  let ?d = "dropWhile isspace s"
  let ?e = "dropWhile isspace (rev ?d)"
  have e: "?e \<noteq> []" using False by (simp add: strip_def)
  have l: "\<not> isspace (last (strip s))"
    using e hd_dropWhile[of isspace "rev ?d"] by (simp add: strip_def last_rev)
  have d: "?d \<noteq> []"
  proof
    assume "?d = []"
    then have "?e = []" by (simp only: rev.simps dropWhile.simps)
    with e show False by blast
  qed
  have t: "takeWhile isspace (rev ?d) @ ?e = rev ?d" by (rule takeWhile_dropWhile_id)
  have "last (takeWhile isspace (rev ?d) @ ?e) = last ?e" using e by (rule last_appendR)
  then have le: "last (rev ?d) = last ?e" by (simp only: t)
  have "last (rev ?d) = hd ?d" using d by (simp add: last_rev)
  with le have hl: "hd ?d = last ?e" by (simp only:)
  have "hd (rev ?e) = last ?e" using e by (simp add: hd_rev)
  with hl have hs: "hd (strip s) = hd ?d" by (simp only: strip_def)
  have "\<not> isspace (hd ?d)" using d by (simp add: hd_dropWhile)
  with hs have h: "\<not> isspace (hd (strip s))" by simp
  from h l show ?thesis by simp
qed

lemma strip_unique:
  assumes "s = pre @ m @ post" and "list_all isspace pre" and "list_all isspace post"
    and "m = [] \<or> (\<not> isspace (hd m) \<and> \<not> isspace (last m))"
  shows "strip s = m"
proof (cases "m = []")
  case True
  have "list_all isspace (pre @ post)" using assms(2,3) by simp
  then have "dropWhile isspace ((pre @ post) @ []) = dropWhile isspace []"
    by (rule dropWhile_all)
  then have "dropWhile isspace (pre @ post) = []"
    by (simp only: append_Nil2 dropWhile.simps)
  with True assms(1) have dz: "dropWhile isspace s = []" by (simp only: append_Nil)
  have "strip s = rev (dropWhile isspace (rev []))" by (simp only: strip_def dz)
  with True show ?thesis by (simp only: rev.simps dropWhile.simps)
next
  case False
  with assms(4) have h: "\<not> isspace (hd m)" and l: "\<not> isspace (last m)" by simp_all
  have "dropWhile isspace s = dropWhile isspace (m @ post)"
    using assms(1,2) by (simp add: dropWhile_all)
  also have "\<dots> = m @ post" using False h by (cases m) auto
  finally have d: "dropWhile isspace s = m @ post" .
  have rp: "list_all isspace (rev post)" using assms(3) by (simp add: list_all_iff)
  have "dropWhile isspace (rev (m @ post)) = dropWhile isspace (rev m)"
    using rp by (simp add: dropWhile_all)
  also have "\<dots> = rev m" using False l by (intro dropWhile_none) (simp add: hd_rev)
  finally show ?thesis by (simp add: strip_def d)
qed

lemma isspace_examples:
  "isspace CHR '' ''" "isspace (CHR 0x09)" "isspace (CHR 0x0A)" "isspace (CHR 0x0D)"
  "\<not> isspace CHR ''a''" "\<not> isspace CHR ''-''" "\<not> isspace CHR ''0''"
  by (simp_all add: isspace_def)

lemma expand_prefer_order_whitespace_example:
  "expand_prefer_order
     ['' latin '', CHR 0x09 # ''zh-tw'' @ [CHR 0x0A], ''   '', [], '' my font '', ''zh-tw'']
     [''latin0'', ''latin1'']
   = [''latin0'', ''latin1'', ''zh-tw'', ''my font'']"
  by (simp add: expand_prefer_order_def strip_def isspace_def Let_def)

text \<open>
  C3. The two loops of \<^verbatim>\<open>expand_prefer_order\<close> compute what the specification says: the
  tokens trimmed, the empty ones dropped, every \<^verbatim>\<open>latin\<close> replaced in place by the latin
  tags in their order, every other token kept, and of every tag the first occurrence
  only; so the result has no duplicates. Trimming is what it says: \<open>strip\<close> takes a run
  of whitespace off each end of a string and leaves a string that neither starts nor
  ends with whitespace, and it is the only such string; space, tab, line feed and
  carriage return are whitespace, letters, digits and the hyphen are not. On the tokens
  latin, zh-tw, latin with the latin tags latin0, latin1 the resolver returns latin0,
  latin1, zh-tw, and it returns the same order followed by \<^verbatim>\<open>my font\<close> on tokens that
  carry whitespace around them, are blank or are empty.
\<close>

theorem expand_prefer_order_resolves:
  "expand_prefer_order tokens latin_tags = resolveOrder_spec tokens latin_tags
   \<and> distinct (expand_prefer_order tokens latin_tags)
   \<and> expand_prefer_order [''latin'', ''zh-tw'', ''latin''] [''latin0'', ''latin1'']
       = [''latin0'', ''latin1'', ''zh-tw'']
   \<and> (\<exists>pre post. s = pre @ strip s @ post \<and> list_all isspace pre \<and> list_all isspace post)
   \<and> (strip s = [] \<or> (\<not> isspace (hd (strip s)) \<and> \<not> isspace (last (strip s))))
   \<and> (\<forall>pre m post. s = pre @ m @ post \<and> list_all isspace pre \<and> list_all isspace post
          \<and> (m = [] \<or> (\<not> isspace (hd m) \<and> \<not> isspace (last m))) \<longrightarrow> strip s = m)
   \<and> isspace CHR '' '' \<and> isspace (CHR 0x09) \<and> isspace (CHR 0x0A) \<and> isspace (CHR 0x0D)
   \<and> \<not> isspace CHR ''a'' \<and> \<not> isspace CHR ''-'' \<and> \<not> isspace CHR ''0''
   \<and> expand_prefer_order
        ['' latin '', CHR 0x09 # ''zh-tw'' @ [CHR 0x0A], ''   '', [], '' my font '', ''zh-tw'']
        [''latin0'', ''latin1'']
       = [''latin0'', ''latin1'', ''zh-tw'', ''my font'']"
proof (intro conjI)
  show "expand_prefer_order tokens latin_tags = resolveOrder_spec tokens latin_tags"
    by (rule expand_prefer_order_eq_spec)
  show "distinct (expand_prefer_order tokens latin_tags)"
    by (rule distinct_expand_prefer_order)
  show "expand_prefer_order [''latin'', ''zh-tw'', ''latin''] [''latin0'', ''latin1'']
       = [''latin0'', ''latin1'', ''zh-tw'']"
    by (simp add: expand_prefer_order_def strip_plain_tokens)
  show "\<exists>pre post. s = pre @ strip s @ post \<and> list_all isspace pre \<and> list_all isspace post"
    by (rule strip_decomposes)
  show "strip s = [] \<or> (\<not> isspace (hd (strip s)) \<and> \<not> isspace (last (strip s)))"
    by (rule strip_ends)
  show "\<forall>pre m post. s = pre @ m @ post \<and> list_all isspace pre \<and> list_all isspace post
          \<and> (m = [] \<or> (\<not> isspace (hd m) \<and> \<not> isspace (last m))) \<longrightarrow> strip s = m"
    using strip_unique by blast
  show "isspace CHR '' ''" "isspace (CHR 0x09)" "isspace (CHR 0x0A)" "isspace (CHR 0x0D)"
    "\<not> isspace CHR ''a''" "\<not> isspace CHR ''-''" "\<not> isspace CHR ''0''"
    by (rule isspace_examples)+
  show "expand_prefer_order
        ['' latin '', CHR 0x09 # ''zh-tw'' @ [CHR 0x0A], ''   '', [], '' my font '', ''zh-tw'']
        [''latin0'', ''latin1'']
       = [''latin0'', ''latin1'', ''zh-tw'', ''my font'']"
    by (rule expand_prefer_order_whitespace_example)
qed

text \<open>
  The token \<^verbatim>\<open>latin\<close> between a tab and a line feed: the only way to split it into
  whitespace, a trimmed middle and whitespace gives \<^verbatim>\<open>latin\<close>, and the resolver expands it.
\<close>

theorem expand_prefer_order_resolves_witness:
  "CHR 0x09 # ''latin'' @ [CHR 0x0A] = [CHR 0x09] @ ''latin'' @ [CHR 0x0A]
   \<and> list_all isspace [CHR 0x09] \<and> list_all isspace [CHR 0x0A]
   \<and> \<not> isspace (hd ''latin'') \<and> \<not> isspace (last ''latin'')
   \<and> strip (CHR 0x09 # ''latin'' @ [CHR 0x0A]) = ''latin''
   \<and> expand_prefer_order [CHR 0x09 # ''latin'' @ [CHR 0x0A], '' zh-cn''] [''latin0'']
       = [''latin0'', ''zh-cn'']"
proof -
  let ?s = "CHR 0x09 # ''latin'' @ [CHR 0x0A]"
  have h1: "?s = [CHR 0x09] @ ''latin'' @ [CHR 0x0A]" by simp
  have h2: "list_all isspace [CHR 0x09]" by (simp add: isspace_def)
  have h3: "list_all isspace [CHR 0x0A]" by (simp add: isspace_def)
  have h4: "\<not> isspace (hd ''latin'')" by (simp add: isspace_def)
  have h5: "\<not> isspace (last ''latin'')" by (simp add: isspace_def)
  note t = expand_prefer_order_resolves[of "[?s, '' zh-cn'']" "[''latin0'']" ?s]
  from t h1 h2 h3 h4 h5 have st: "strip ?s = ''latin''" by blast
  have z: "strip '' zh-cn'' = ''zh-cn''" by (simp add: strip_def isspace_def)
  from t have "expand_prefer_order [?s, '' zh-cn''] [''latin0'']
      = resolveOrder_spec [?s, '' zh-cn''] [''latin0'']"
    by blast
  also have "\<dots> = [''latin0'', ''zh-cn'']"
    using st z by (simp add: resolveOrder_spec_def)
  finally have r: "expand_prefer_order [?s, '' zh-cn''] [''latin0''] = [''latin0'', ''zh-cn'']" .
  from h1 h2 h3 h4 h5 st r show ?thesis by (intro conjI)
qed

section \<open>Properties of the codepoint set builder\<close>

lemma ASCII_BASIC_closed: "ASCII_BASIC = {0x20 .. 0x7E}"
  by (auto simp: ASCII_BASIC_def)

lemma card_ascii: "card {0x20 .. 0x7E :: int} = 95"
  by simp

lemma add_range_superset: "s \<subseteq> add_range s r"
  by (auto simp: add_range_def)

lemma add_blocks_superset: "s \<subseteq> add_blocks a s"
  by (auto simp: add_blocks_def Let_def add_range_def)

lemma add_blocks_no_flags:
  "\<not> add_latin1 a \<Longrightarrow> \<not> add_cjk_punct a \<Longrightarrow> \<not> add_jp_syllabaries a \<Longrightarrow>
   \<not> add_halfwidth a \<Longrightarrow> \<not> add_han_basic a \<Longrightarrow> add_blocks a s = s"
  by (simp add: add_blocks_def)

lemma read_corpus_loop_returns:
  "(\<And>p. p \<in> set ps \<Longrightarrow> rd p \<noteq> None) \<Longrightarrow> \<exists>cs. read_corpus_loop rd ps chars = Inr cs"
proof (induction ps arbitrary: chars)
  case Nil
  then show ?case by simp
next
  case (Cons p ps)
  from Cons.prems[of p] obtain content where t: "rd p = Some content" by auto
  from Cons.IH[of "chars \<union> set content"] Cons.prems
  obtain cs where "read_corpus_loop rd ps (chars \<union> set content) = Inr cs" by auto
  with t show ?case by simp
qed

lemma build_target_returns:
  "(\<And>p ps. corpus a = Some ps \<Longrightarrow> p \<in> set ps \<Longrightarrow> rd p \<noteq> None) \<Longrightarrow>
   \<exists>T. build_target rd a = Inr T"
proof (cases "corpus a")
  case None
  then show ?thesis by (simp add: build_target_def)
next
  case (Some ps)
  assume "\<And>p ps. corpus a = Some ps \<Longrightarrow> p \<in> set ps \<Longrightarrow> rd p \<noteq> None"
  with Some have "\<And>p. p \<in> set ps \<Longrightarrow> rd p \<noteq> None" by blast
  from read_corpus_loop_returns[of ps rd "{}", OF this] obtain cs where
    "read_corpus_loop rd ps {} = Inr cs" by blast
  with Some show ?thesis by (simp add: build_target_def read_corpus_chars_def)
qed

lemma build_target_contains_ascii:
  "build_target rd a = Inr T \<Longrightarrow> ASCII_BASIC \<subseteq> T"
  using add_blocks_superset[of "ASCII_BASIC" a]
    add_blocks_superset[of "ASCII_BASIC \<union> chars_to_codepoints cs" a for cs]
  by (auto simp: build_target_def split: if_splits sum.splits)

text \<open>
  C6. Without corpus (none given, or an empty list of paths) and without block flags
  \<^verbatim>\<open>build_target\<close> returns the codepoints 0x20 to 0x7E, which are 95; whatever the corpus
  and the flags, a target it returns contains them; and it returns whenever every corpus
  path can be read.
\<close>

theorem build_target_ascii:
  "(\<not> truthy (corpus a) \<and> \<not> add_latin1 a \<and> \<not> add_cjk_punct a \<and> \<not> add_jp_syllabaries a
      \<and> \<not> add_halfwidth a \<and> \<not> add_han_basic a
      \<longrightarrow> build_target rd a = Inr {0x20 .. 0x7E})
   \<and> card {0x20 .. 0x7E :: int} = 95
   \<and> (\<forall>T. build_target rd a = Inr T \<longrightarrow> {0x20 .. 0x7E} \<subseteq> T)
   \<and> ((\<forall>ps. corpus a = Some ps \<longrightarrow> (\<forall>p \<in> set ps. rd p \<noteq> None))
        \<longrightarrow> (\<exists>T. build_target rd a = Inr T))"
proof (intro conjI impI allI)
  assume "\<not> truthy (corpus a) \<and> \<not> add_latin1 a \<and> \<not> add_cjk_punct a \<and> \<not> add_jp_syllabaries a
      \<and> \<not> add_halfwidth a \<and> \<not> add_han_basic a"
  then show "build_target rd a = Inr {0x20 .. 0x7E}"
    by (simp add: build_target_def add_blocks_no_flags ASCII_BASIC_closed)
next
  show "card {0x20 .. 0x7E :: int} = 95" by (rule card_ascii)
next
  fix T assume "build_target rd a = Inr T"
  from build_target_contains_ascii[OF this] show "{0x20 .. 0x7E} \<subseteq> T"
    by (simp only: ASCII_BASIC_closed)
next
  assume "\<forall>ps. corpus a = Some ps \<longrightarrow> (\<forall>p \<in> set ps. rd p \<noteq> None)"
  then show "\<exists>T. build_target rd a = Inr T"
    by (intro build_target_returns) blast
qed

theorem build_target_ascii_witness:
  "\<not> truthy (corpus example_args) \<and> \<not> add_latin1 example_args
   \<and> \<not> add_cjk_punct example_args \<and> \<not> add_jp_syllabaries example_args
   \<and> \<not> add_halfwidth example_args \<and> \<not> add_han_basic example_args
   \<and> build_target Map.empty example_args = Inr {0x20 .. 0x7E}
   \<and> {0x20 .. 0x7E} \<subseteq> {0x20 .. 0x7E :: int}
   \<and> (\<exists>T. build_target Map.empty example_args = Inr T)"
  using build_target_ascii[of example_args Map.empty]
  by (simp add: example_args_def)

lemma jp_blocks: "{0x3040 ..< 0x309F + 1} \<union> {0x30A0 ..< 0x30FF + 1} = {0x3040 .. 0x30FF :: int}"
  by auto

lemma add_blocks_jp:
  "add_blocks (a\<lparr>add_jp_syllabaries := True\<rparr>) s
     = add_blocks (a\<lparr>add_jp_syllabaries := False\<rparr>) s \<union> {0x3040 .. 0x30FF}"
  unfolding add_blocks_def Let_def add_range_def HIRAGANA_def KATAKANA_def fst_conv snd_conv
  by (simp add: jp_blocks[symmetric] Un_ac)

lemma build_target_jp:
  "build_target rd (a\<lparr>add_jp_syllabaries := True\<rparr>) =
     (case build_target rd (a\<lparr>add_jp_syllabaries := False\<rparr>) of
        Inl e \<Rightarrow> Inl e | Inr T \<Rightarrow> Inr (T \<union> {0x3040 .. 0x30FF}))"
  by (simp add: build_target_def add_blocks_jp split: sum.splits)

text \<open>
  C7. Switching \<^verbatim>\<open>add_jp_syllabaries\<close> on changes the target by the union with the range
  0x3040 to 0x30FF and by nothing else (a run that fails on its corpus fails the same
  way); the range has 192 codepoints and none of them is a printable ASCII codepoint, so
  a target that had none of them grows by 192.
\<close>

theorem jp_syllabaries_adds_range:
  "(\<forall>T. build_target rd (a\<lparr>add_jp_syllabaries := False\<rparr>) = Inr T \<longrightarrow>
        build_target rd (a\<lparr>add_jp_syllabaries := True\<rparr>) = Inr (T \<union> {0x3040 .. 0x30FF})
        \<and> (finite T \<and> T \<inter> {0x3040 .. 0x30FF} = {} \<longrightarrow>
             card (T \<union> {0x3040 .. 0x30FF}) = card T + 192))
   \<and> (\<forall>e. build_target rd (a\<lparr>add_jp_syllabaries := False\<rparr>) = Inl e \<longrightarrow>
        build_target rd (a\<lparr>add_jp_syllabaries := True\<rparr>) = Inl e)
   \<and> card {0x3040 .. 0x30FF :: int} = 192
   \<and> {0x3040 .. 0x30FF} \<inter> {0x20 .. 0x7E :: int} = {}"
proof (intro conjI allI impI)
  fix T assume "build_target rd (a\<lparr>add_jp_syllabaries := False\<rparr>) = Inr T"
  then show "build_target rd (a\<lparr>add_jp_syllabaries := True\<rparr>) = Inr (T \<union> {0x3040 .. 0x30FF})"
    by (simp add: build_target_jp)
next
  fix T :: "int set"
  assume "finite T \<and> T \<inter> {0x3040 .. 0x30FF} = {}"
  then have "card (T \<union> {0x3040 .. 0x30FF}) = card T + card {0x3040 .. 0x30FF :: int}"
    by (intro card_Un_disjoint) simp_all
  then show "card (T \<union> {0x3040 .. 0x30FF}) = card T + 192" by simp
next
  fix e assume "build_target rd (a\<lparr>add_jp_syllabaries := False\<rparr>) = Inl e"
  then show "build_target rd (a\<lparr>add_jp_syllabaries := True\<rparr>) = Inl e"
    by (simp add: build_target_jp)
next
  show "card {0x3040 .. 0x30FF :: int} = 192" by simp
next
  show "{0x3040 .. 0x30FF} \<inter> {0x20 .. 0x7E :: int} = {}" by auto
qed

theorem jp_syllabaries_adds_range_witness:
  "build_target Map.empty (example_args\<lparr>add_jp_syllabaries := False\<rparr>) = Inr {0x20 .. 0x7E}
   \<and> build_target Map.empty (example_args\<lparr>add_jp_syllabaries := True\<rparr>)
        = Inr ({0x20 .. 0x7E} \<union> {0x3040 .. 0x30FF})
   \<and> finite {0x20 .. 0x7E :: int} \<and> {0x20 .. 0x7E} \<inter> {0x3040 .. 0x30FF :: int} = {}
   \<and> card ({0x20 .. 0x7E} \<union> {0x3040 .. 0x30FF :: int}) = card {0x20 .. 0x7E :: int} + 192"
proof -
  have b: "build_target Map.empty (example_args\<lparr>add_jp_syllabaries := False\<rparr>) = Inr {0x20 .. 0x7E}"
    by (simp add: build_target_def add_blocks_def example_args_def ASCII_BASIC_closed)
  have f: "finite {0x20 .. 0x7E :: int}" by simp
  have d: "{0x20 .. 0x7E} \<inter> {0x3040 .. 0x30FF :: int} = {}" by auto
  from jp_syllabaries_adds_range[of Map.empty example_args] b f d
  have "build_target Map.empty (example_args\<lparr>add_jp_syllabaries := True\<rparr>)
        = Inr ({0x20 .. 0x7E} \<union> {0x3040 .. 0x30FF})"
    and "card ({0x20 .. 0x7E} \<union> {0x3040 .. 0x30FF :: int}) = card {0x20 .. 0x7E :: int} + 192"
    by blast+
  with b f d show ?thesis by blast
qed

section \<open>Properties of the font compatibility validator\<close>


























section \<open>Properties of the order and of the run\<close>

lemma digit_char_inj:
  assumes "a < 10" and "b < 10" and "digit_char a = digit_char b"
  shows "a = b"
proof -
  from assms(1) have "a \<in> {0, 1, 2, 3, 4, 5, 6, 7, 8, 9}" by auto
  moreover from assms(2) have "b \<in> {0, 1, 2, 3, 4, 5, 6, 7, 8, 9}" by auto
  ultimately show ?thesis using assms(3) by (auto simp: digit_char_def)
qed

lemma str_nat_nonempty: "str_nat n \<noteq> []"
  by (subst str_nat.simps) simp

lemma str_nat_small: "n < 10 \<Longrightarrow> str_nat n = [digit_char n]"
  by (subst str_nat.simps) simp

lemma str_nat_large: "\<not> n < 10 \<Longrightarrow> str_nat n = str_nat (n div 10) @ [digit_char (n mod 10)]"
  by (subst str_nat.simps) simp

lemma str_nat_inj: "str_nat n = str_nat m \<Longrightarrow> n = m"
proof (induction n arbitrary: m rule: str_nat.induct)
  case (1 n)
  show ?case
  proof (cases "n < 10")
    case True
    show ?thesis
    proof (cases "m < 10")
      case m: True
      with True "1.prems" show ?thesis by (simp add: str_nat_small digit_char_inj)
    next
      case m: False
      with True "1.prems" str_nat_nonempty[of "m div 10"] show ?thesis
        by (simp add: str_nat_small str_nat_large)
    qed
  next
    case False
    show ?thesis
    proof (cases "m < 10")
      case m: True
      with False "1.prems" str_nat_nonempty[of "n div 10"] show ?thesis
        by (simp add: str_nat_small str_nat_large)
    next
      case m: False
      from False m "1.prems" have e: "str_nat (n div 10) = str_nat (m div 10)"
        and d: "digit_char (n mod 10) = digit_char (m mod 10)"
        by (simp_all add: str_nat_large)
      from "1.IH"[OF False e] have q: "n div 10 = m div 10" .
      from d have r: "n mod 10 = m mod 10" by (intro digit_char_inj) simp_all
      have "n = 10 * (n div 10) + n mod 10" by simp
      also have "\<dots> = 10 * (m div 10) + m mod 10" by (simp only: q r)
      also have "\<dots> = m" by simp
      finally show ?thesis .
    qed
  qed
qed

lemma distinct_latin_tags: "distinct (latin_tags_of a)"
  by (auto simp: latin_tags_of_def distinct_map inj_on_def dest: str_nat_inj)

lemma latin_tags_form: "t \<in> set (latin_tags_of a) \<Longrightarrow> \<exists>s. t = ''latin'' @ s"
  by (auto simp: latin_tags_of_def)

lemma distinct_resolve_order: "distinct (resolve_order a)"
proof (cases "truthy (prefer_order a)")
  case True
  then show ?thesis by (simp add: resolve_order_def distinct_expand_prefer_order)
next
  case False
  have "''zh-tw'' \<notin> set (latin_tags_of a)" "''zh-cn'' \<notin> set (latin_tags_of a)"
    "''ja'' \<notin> set (latin_tags_of a)"
    using latin_tags_form[of _ a] by auto
  with False show ?thesis by (simp add: resolve_order_def distinct_latin_tags)
qed

lemma dom_font_map_of:
  "dom (font_map_of a) \<subseteq> set (latin_tags_of a) \<union> {''zh-tw'', ''zh-cn'', ''ja''}"
proof -
  have "dom (dict_of (zip (latin_tags_of a) (latin a))) \<subseteq> set (latin_tags_of a)"
    by (auto simp: dom_dict_of dest: set_zip_leftD)
  then show ?thesis by (auto simp: font_map_of_def Let_def split: if_splits)
qed

text \<open>
  The order a run partitions with has no empty tag and no duplicate: the hypotheses
  under which the partition is stated hold for every resolved order.
\<close>

lemma main_order_tags_nonempty: "[] \<notin> set (main_order a)"
proof
  assume "[] \<in> set (main_order a)"
  then have "usable_tag (font_map_of a) []" by (simp add: main_order_def)
  then have "[] \<in> dom (font_map_of a)" by (auto simp: usable_tag_def split: option.splits)
  with dom_font_map_of[of a] have "[] \<in> set (latin_tags_of a)" by auto
  with latin_tags_form[of "[]" a] show False by simp
qed

lemma main_order_distinct: "distinct (main_order a)"
  by (simp add: main_order_def distinct_resolve_order)

lemma main_order_member:
  "t \<in> set (main_order a) \<longleftrightarrow>
     t \<in> set (resolve_order a) \<and> (\<exists>p. font_map_of a t = Some p \<and> p \<noteq> [])"
  by (auto simp: main_order_def usable_tag_def split: option.splits)

lemma subset_loop_events:
  "\<exists>evs'. fst (subset_loop e tmp_dir order assigned evs subset_paths counts) = evs @ evs'"
proof (induction order arbitrary: evs subset_paths counts)
  case Nil
  then show ?case by simp
next
  case (Cons tag rest)
  show ?case
  proof (cases "assigned tag")
    case None
    then show ?thesis by simp
  next
    case (Some keep)
    show ?thesis
    proof (cases "keep = {}")
      case True
      with Some Cons.IH[of evs subset_paths "counts @ [(tag, 0)]"] show ?thesis by simp
    next
      case False
      show ?thesis
      proof (cases "subset_raises e tag (sorted_list_of_set keep)")
        case None
        from Cons.IH[of "evs @ [Subset tag (sorted_list_of_set keep)]"
            "subset_paths @ [tmp_dir @ ''/'' @ tag @ ''.subset.ttf'']" "counts @ [(tag, card keep)]"]
        obtain evs' where
          "fst (subset_loop e tmp_dir rest assigned (evs @ [Subset tag (sorted_list_of_set keep)])
             (subset_paths @ [tmp_dir @ ''/'' @ tag @ ''.subset.ttf'']) (counts @ [(tag, card keep)]))
           = (evs @ [Subset tag (sorted_list_of_set keep)]) @ evs'"
          by blast
        with Some False None show ?thesis by (simp add: Let_def)
      next
        case (Some err)
        with \<open>assigned tag = Some keep\<close> False show ?thesis by (simp add: Let_def)
      qed
    qed
  qed
qed

lemma main_empty_order:
  "main_order a = [] \<Longrightarrow> main e tmp_dir a = ([], Inl (SystemExit no_valid_fonts_message))"
  by (simp add: main_def)

lemma main_validates_first:
  assumes "main_order a \<noteq> []"
  shows "\<exists>evs. fst (main e tmp_dir a) = Validate (main_order a) # evs"
proof (cases "validate_fonts (open_font e) (font_map_of a) (main_order a)")
  case (Inl err)
  with assms show ?thesis by (simp add: main_def Let_def)
next
  case v: (Inr warnings)
  show ?thesis
  proof (cases "build_target (read_text e) a")
    case (Inl err)
    with assms v show ?thesis by (simp add: main_def Let_def)
  next
    case t: (Inr target)
    let ?evs0 = "[Validate (main_order a)] @
                    (if truthy (corpus a)
                     then [ReadCorpus (case corpus a of Some ps \<Rightarrow> ps | None \<Rightarrow> [])] else []) @
                    [ReadCoverage (main_order a)]"
    show ?thesis
    proof (cases "build_support (open_font e) (font_map_of a) (main_order a) Map.empty")
      case (Inl err)
      with assms v t show ?thesis by (simp add: main_def Let_def)
    next
      case s: (Inr support)
      show ?thesis
      proof (cases "main_partition target (main_order a) support")
        case (Inl err)
        with assms v t s show ?thesis by (simp add: main_def Let_def)
      next
        case (Inr res)
        obtain assigned unassigned where res: "res = (assigned, unassigned)" by (cases res)
        obtain evs1 r where sl: "subset_loop e tmp_dir (main_order a) assigned ?evs0 [] [] = (evs1, r)"
          by (cases "subset_loop e tmp_dir (main_order a) assigned ?evs0 [] []")
        from subset_loop_events[of e tmp_dir "main_order a" assigned ?evs0 "[]" "[]"] sl
        obtain evs' where evs1: "evs1 = ?evs0 @ evs'" by auto
        show ?thesis
        proof (cases r)
          case (Inl err)
          with assms v t s Inr res sl evs1 show ?thesis by (simp add: main_def Let_def)
        next
          case sp: (Inr pc)
          obtain subset_paths counts where pc: "pc = (subset_paths, counts)" by (cases pc)
          show ?thesis
          proof (cases "pyftmerge e subset_paths")
            case (Inl err)
            with assms v t s Inr res sl evs1 sp pc show ?thesis by (simp add: main_def Let_def)
          next
            case m: (Inr merged)
            show ?thesis
            proof (cases "set_font_name (\<lambda>p. if p = out a then Inr merged else open_font e p)
                (save_font e) (out a) (out_name a) (out_subfamily a)")
              case (Inl err)
              with assms v t s Inr res sl evs1 sp pc m show ?thesis
                by (simp add: main_def Let_def)
            next
              case rn: (Inr saved)
              obtain stored line where "saved = (stored, line)" by (cases saved)
              with rn assms v t s Inr res sl evs1 sp pc m show ?thesis
                by (simp add: main_def Let_def)
            qed
          qed
        qed
      qed
    qed
  qed
qed

lemma example_latin_tags: "latin_tags_of example_args = [''latin0'', ''latin1'']"
  by (simp add: latin_tags_of_def example_args_def upt_rec str_nat.simps digit_char_def)

lemma example_font_map:
  "font_map_of example_args =
     [''latin0'' \<mapsto> ''L0.ttf'', ''latin1'' \<mapsto> ''L1.ttf'', ''zh-tw'' \<mapsto> ''TW.otf'', ''zh-cn'' \<mapsto> ''CN.otf'']"
  using example_latin_tags by (simp add: font_map_of_def dict_of_def example_args_def)

lemma example_main_order:
  "main_order example_args = [''latin0'', ''latin1'', ''zh-tw'', ''zh-cn'']"
  using example_latin_tags example_font_map
  by (simp add: main_order_def resolve_order_def usable_tag_def) (simp add: example_args_def)

lemma unknown_tag_latin_tags:
  "latin_tags_of (example_args\<lparr>prefer_order := Some ''ko''\<rparr>) = [''latin0'', ''latin1'']"
  using example_latin_tags by (simp add: latin_tags_of_def)

lemma unknown_tag_font_map:
  "font_map_of (example_args\<lparr>prefer_order := Some ''ko''\<rparr>) = font_map_of example_args"
  by (simp add: font_map_of_def latin_tags_of_def example_args_def)

lemma unknown_tag_resolve_order:
  "resolve_order (example_args\<lparr>prefer_order := Some ''ko''\<rparr>) = [''ko'']"
  by (simp add: resolve_order_def unknown_tag_latin_tags split_comma_def expand_prefer_order_def
      strip_def isspace_def)

lemma unknown_tag_main_order: "main_order (example_args\<lparr>prefer_order := Some ''ko''\<rparr>) = []"
  by (simp add: main_order_def unknown_tag_resolve_order unknown_tag_font_map example_font_map
      usable_tag_def)

text \<open>
  C8. The order of a run is the resolved order without the tags that are no key of the
  font map or whose path is empty, in the same sequence. When it is empty the run raises
  \<^verbatim>\<open>SystemExit\<close> with its message, so it ends with a non-zero status, and it has done no
  outside work at all: no font was opened for validation, nothing was subset or merged.
  In every other run the validation is the first outside work.
\<close>

theorem empty_order_fails_first:
  "main_order a = filter (usable_tag (font_map_of a)) (resolve_order a)
   \<and> (\<forall>t. t \<in> set (main_order a) \<longleftrightarrow>
          t \<in> set (resolve_order a) \<and> (\<exists>p. font_map_of a t = Some p \<and> p \<noteq> []))
   \<and> (main_order a = [] \<longrightarrow>
          main e tmp_dir a = ([], Inl (SystemExit no_valid_fonts_message))
          \<and> exit_status (snd (main e tmp_dir a)) \<noteq> 0)
   \<and> (main_order a \<noteq> [] \<longrightarrow> (\<exists>evs. fst (main e tmp_dir a) = Validate (main_order a) # evs))"
proof (intro conjI allI impI)
  show "main_order a = filter (usable_tag (font_map_of a)) (resolve_order a)"
    by (simp add: main_order_def)
next
  fix t
  show "t \<in> set (main_order a) \<longleftrightarrow>
          t \<in> set (resolve_order a) \<and> (\<exists>p. font_map_of a t = Some p \<and> p \<noteq> [])"
    by (rule main_order_member)
next
  assume "main_order a = []"
  then show "main e tmp_dir a = ([], Inl (SystemExit no_valid_fonts_message))"
    by (rule main_empty_order)
next
  assume "main_order a = []"
  then show "exit_status (snd (main e tmp_dir a)) \<noteq> 0"
    by (simp add: main_empty_order exit_status_def)
next
  assume "main_order a \<noteq> []"
  then show "\<exists>evs. fst (main e tmp_dir a) = Validate (main_order a) # evs"
    by (rule main_validates_first)
qed

text \<open>
  The preference \<^verbatim>\<open>ko\<close> names no font of the run: the order is empty and the run stops
  at once. With the default order the run starts by validating its four fonts.
\<close>

theorem empty_order_fails_first_witness:
  "main_order (example_args\<lparr>prefer_order := Some ''ko''\<rparr>) = []
   \<and> main empty_env ''/tmp/font_dedup_0'' (example_args\<lparr>prefer_order := Some ''ko''\<rparr>)
       = ([], Inl (SystemExit ''No valid fonts in prefer order.''))
   \<and> exit_status (snd (main empty_env ''/tmp/font_dedup_0''
        (example_args\<lparr>prefer_order := Some ''ko''\<rparr>))) = 1
   \<and> main_order example_args \<noteq> []
   \<and> (\<exists>evs. fst (main empty_env ''/tmp/font_dedup_0'' example_args)
         = Validate [''latin0'', ''latin1'', ''zh-tw'', ''zh-cn''] # evs)"
proof -
  let ?a = "example_args\<lparr>prefer_order := Some ''ko''\<rparr>"
  have o: "main_order ?a = []" by (rule unknown_tag_main_order)
  from empty_order_fails_first[of ?a empty_env "''/tmp/font_dedup_0''"] o
  have m: "main empty_env ''/tmp/font_dedup_0'' ?a = ([], Inl (SystemExit no_valid_fonts_message))"
    by blast
  then have m': "main empty_env ''/tmp/font_dedup_0'' ?a
       = ([], Inl (SystemExit ''No valid fonts in prefer order.''))"
    by (simp add: no_valid_fonts_message_def)
  have x: "exit_status (snd (main empty_env ''/tmp/font_dedup_0'' ?a)) = 1"
    by (simp add: m exit_status_def)
  have n: "main_order example_args \<noteq> []" by (simp add: example_main_order)
  from empty_order_fails_first[of example_args empty_env "''/tmp/font_dedup_0''"] n
  have "\<exists>evs. fst (main empty_env ''/tmp/font_dedup_0'' example_args)
         = Validate (main_order example_args) # evs"
    by blast
  then have v: "\<exists>evs. fst (main empty_env ''/tmp/font_dedup_0'' example_args)
         = Validate [''latin0'', ''latin1'', ''zh-tw'', ''zh-cn''] # evs"
    by (simp only: example_main_order)
  from o m' x n v show ?thesis by (intro conjI)
qed

section \<open>Properties of the renamer\<close>

lemma rename_record_cases:
  "rename_record (name_records family_name subfamily) r =
     (if nameID r = 1 then r\<lparr>string_value := family_name\<rparr>
      else if nameID r = 2 then r\<lparr>string_value := subfamily\<rparr>
      else if nameID r = 4 then r\<lparr>string_value := full_name_of family_name subfamily\<rparr>
      else if nameID r = 6 then r\<lparr>string_value := ps_name_of family_name subfamily\<rparr>
      else r)"
  by (simp add: rename_record_def name_records_def)

lemma rename_record_nameID:
  "nameID (rename_record (name_records family_name subfamily) r) = nameID r"
  by (simp add: rename_record_cases)

lemma rename_record_other:
  "nameID r \<notin> {1, 2, 4, 6} \<Longrightarrow> rename_record (name_records family_name subfamily) r = r"
  by (simp add: rename_record_cases)

lemma rename_names_nth:
  "i < length recs \<Longrightarrow>
   rename_names recs family_name subfamily ! i =
     rename_record (name_records family_name subfamily) (recs ! i)"
  by (simp add: rename_names_def)

lemma set_font_name_opened:
  "opn font_path = Inr font \<Longrightarrow> ''name'' \<in> tables font \<Longrightarrow>
   set_font_name opn save font_path family_name subfamily =
     (case save font_path (font\<lparr>names := rename_names (names font) family_name subfamily\<rparr>) of
        Inl err \<Rightarrow> Inl err
      | Inr stored \<Rightarrow> Inr (stored, ''Font renamed to: '' @ full_name_of family_name subfamily))"
  by (simp add: set_font_name_def)

lemma stored_records:
  assumes "mset stored = mset (rename_names recs family_name subfamily)"
  shows "length stored = length recs"
    and "mset stored = image_mset (rename_record (name_records family_name subfamily)) (mset recs)"
    and "filter_mset (\<lambda>r. nameID r \<notin> {1, 2, 4, 6}) (mset stored)
           = filter_mset (\<lambda>r. nameID r \<notin> {1, 2, 4, 6}) (mset recs)"
    and "\<And>r. r \<in> set stored \<Longrightarrow>
           (nameID r = 1 \<longrightarrow> string_value r = family_name)
           \<and> (nameID r = 2 \<longrightarrow> string_value r = subfamily)
           \<and> (nameID r = 4 \<longrightarrow> string_value r = full_name_of family_name subfamily)
           \<and> (nameID r = 6 \<longrightarrow> string_value r = ps_name_of family_name subfamily)"
proof -
  let ?f = "rename_record (name_records family_name subfamily)"
  have m: "mset stored = image_mset ?f (mset recs)"
    using assms by (simp add: rename_names_def)
  show "mset stored = image_mset ?f (mset recs)" by (rule m)
  have "size (mset stored) = size (image_mset ?f (mset recs))" by (simp only: m)
  then show "length stored = length recs" by simp
  have "filter_mset (\<lambda>r. nameID r \<notin> {1, 2, 4, 6}) (image_mset ?f (mset recs))
      = image_mset ?f (filter_mset (\<lambda>r. nameID (?f r) \<notin> {1, 2, 4, 6}) (mset recs))"
    by (simp add: filter_mset_image_mset comp_def)
  also have "\<dots> = image_mset ?f (filter_mset (\<lambda>r. nameID r \<notin> {1, 2, 4, 6}) (mset recs))"
    by (simp only: rename_record_nameID)
  also have "\<dots> = image_mset (\<lambda>r. r) (filter_mset (\<lambda>r. nameID r \<notin> {1, 2, 4, 6}) (mset recs))"
    by (rule image_mset_cong) (simp add: rename_record_other)
  finally show "filter_mset (\<lambda>r. nameID r \<notin> {1, 2, 4, 6}) (mset stored)
           = filter_mset (\<lambda>r. nameID r \<notin> {1, 2, 4, 6}) (mset recs)"
    by (simp add: m)
  fix r assume "r \<in> set stored"
  then have "r \<in># mset stored" by simp
  then obtain r0 where "r = ?f r0" unfolding m by auto
  then show "(nameID r = 1 \<longrightarrow> string_value r = family_name)
           \<and> (nameID r = 2 \<longrightarrow> string_value r = subfamily)
           \<and> (nameID r = 4 \<longrightarrow> string_value r = full_name_of family_name subfamily)
           \<and> (nameID r = 6 \<longrightarrow> string_value r = ps_name_of family_name subfamily)"
    by (simp add: rename_record_cases)
qed

text \<open>
  C10. The full name is the family name when the subfamily is \<^verbatim>\<open>Regular\<close>, and the family
  name, a space and the subfamily otherwise; the PostScript name is the full name without
  its spaces. The loop of \<^verbatim>\<open>set_font_name\<close> keeps the number and the sequence of the name
  records in memory: a record with name 1, 2, 4 or 6 gets the family, subfamily, full or
  PostScript name as its string and keeps its other fields, every other record stays as
  it is. On a font that opens and has a name table, \<^verbatim>\<open>set_font_name\<close> hands exactly this
  font, with nothing but the strings of these records changed, to the save: it raises
  what the save raises, and otherwise returns the stored font and prints the full name.
  Whenever the save stores the records it was given, in whatever order, the stored name
  table has as many records as the font had, the records with other names are the ones
  the font had, and every stored record with name 1, 2, 4 or 6 carries the new string.
\<close>

theorem set_font_name_rewrites:
  "full_name_of family_name ''Regular'' = family_name
   \<and> (subfamily \<noteq> ''Regular'' \<longrightarrow>
        full_name_of family_name subfamily = family_name @ '' '' @ subfamily)
   \<and> ps_name_of family_name subfamily
        = filter (\<lambda>c. c \<noteq> CHR '' '') (full_name_of family_name subfamily)
   \<and> CHR '' '' \<notin> set (ps_name_of family_name subfamily)
   \<and> length (rename_names recs family_name subfamily) = length recs
   \<and> (\<forall>i < length recs.
        rename_names recs family_name subfamily ! i =
          (if nameID (recs ! i) = 1 then (recs ! i)\<lparr>string_value := family_name\<rparr>
           else if nameID (recs ! i) = 2 then (recs ! i)\<lparr>string_value := subfamily\<rparr>
           else if nameID (recs ! i) = 4
             then (recs ! i)\<lparr>string_value := full_name_of family_name subfamily\<rparr>
           else if nameID (recs ! i) = 6
             then (recs ! i)\<lparr>string_value := ps_name_of family_name subfamily\<rparr>
           else recs ! i))
   \<and> (\<forall>font. opn font_path = Inr font \<and> ''name'' \<in> tables font \<longrightarrow>
        set_font_name opn save font_path family_name subfamily =
          (case save font_path (font\<lparr>names := rename_names (names font) family_name subfamily\<rparr>) of
             Inl err \<Rightarrow> Inl err
           | Inr stored \<Rightarrow> Inr (stored, ''Font renamed to: '' @ full_name_of family_name subfamily)))
   \<and> (\<forall>font stored.
        opn font_path = Inr font \<and> ''name'' \<in> tables font
        \<and> save font_path (font\<lparr>names := rename_names (names font) family_name subfamily\<rparr>) = Inr stored
        \<and> mset (names stored) = mset (rename_names (names font) family_name subfamily)
        \<longrightarrow> set_font_name opn save font_path family_name subfamily
              = Inr (stored, ''Font renamed to: '' @ full_name_of family_name subfamily)
            \<and> length (names stored) = length (names font)
            \<and> filter_mset (\<lambda>r. nameID r \<notin> {1, 2, 4, 6}) (mset (names stored))
                = filter_mset (\<lambda>r. nameID r \<notin> {1, 2, 4, 6}) (mset (names font))
            \<and> (\<forall>r \<in> set (names stored).
                  (nameID r = 1 \<longrightarrow> string_value r = family_name)
                  \<and> (nameID r = 2 \<longrightarrow> string_value r = subfamily)
                  \<and> (nameID r = 4 \<longrightarrow> string_value r = full_name_of family_name subfamily)
                  \<and> (nameID r = 6 \<longrightarrow> string_value r = ps_name_of family_name subfamily)))"
proof (intro conjI allI impI)
  show "full_name_of family_name ''Regular'' = family_name"
    by (simp add: full_name_of_def)
next
  assume "subfamily \<noteq> ''Regular''"
  then show "full_name_of family_name subfamily = family_name @ '' '' @ subfamily"
    by (simp add: full_name_of_def)
next
  show "ps_name_of family_name subfamily
        = filter (\<lambda>c. c \<noteq> CHR '' '') (full_name_of family_name subfamily)"
    by (simp add: ps_name_of_def remove_spaces_def)
next
  show "CHR '' '' \<notin> set (ps_name_of family_name subfamily)"
    by (simp add: ps_name_of_def remove_spaces_def)
next
  show "length (rename_names recs family_name subfamily) = length recs"
    by (simp add: rename_names_def)
next
  fix i assume "i < length recs"
  then show "rename_names recs family_name subfamily ! i =
          (if nameID (recs ! i) = 1 then (recs ! i)\<lparr>string_value := family_name\<rparr>
           else if nameID (recs ! i) = 2 then (recs ! i)\<lparr>string_value := subfamily\<rparr>
           else if nameID (recs ! i) = 4
             then (recs ! i)\<lparr>string_value := full_name_of family_name subfamily\<rparr>
           else if nameID (recs ! i) = 6
             then (recs ! i)\<lparr>string_value := ps_name_of family_name subfamily\<rparr>
           else recs ! i)"
    by (simp only: rename_names_nth rename_record_cases)
next
  fix font assume "opn font_path = Inr font \<and> ''name'' \<in> tables font"
  then show "set_font_name opn save font_path family_name subfamily =
          (case save font_path (font\<lparr>names := rename_names (names font) family_name subfamily\<rparr>) of
             Inl err \<Rightarrow> Inl err
           | Inr stored \<Rightarrow> Inr (stored, ''Font renamed to: '' @ full_name_of family_name subfamily))"
    by (simp add: set_font_name_opened)
next
  fix font stored
  assume a: "opn font_path = Inr font \<and> ''name'' \<in> tables font
        \<and> save font_path (font\<lparr>names := rename_names (names font) family_name subfamily\<rparr>) = Inr stored
        \<and> mset (names stored) = mset (rename_names (names font) family_name subfamily)"
  then show "set_font_name opn save font_path family_name subfamily
              = Inr (stored, ''Font renamed to: '' @ full_name_of family_name subfamily)"
    by (simp add: set_font_name_opened)
  from a have m: "mset (names stored) = mset (rename_names (names font) family_name subfamily)"
    by simp
  show "length (names stored) = length (names font)"
    using m by (rule stored_records(1))
  show "filter_mset (\<lambda>r. nameID r \<notin> {1, 2, 4, 6}) (mset (names stored))
                = filter_mset (\<lambda>r. nameID r \<notin> {1, 2, 4, 6}) (mset (names font))"
    using m by (rule stored_records(3))
  show "\<forall>r \<in> set (names stored).
                  (nameID r = 1 \<longrightarrow> string_value r = family_name)
                  \<and> (nameID r = 2 \<longrightarrow> string_value r = subfamily)
                  \<and> (nameID r = 4 \<longrightarrow> string_value r = full_name_of family_name subfamily)
                  \<and> (nameID r = 6 \<longrightarrow> string_value r = ps_name_of family_name subfamily)"
    using stored_records(4)[OF m] by blast
qed

text \<open>
  Renaming to family \<^verbatim>\<open>Noto Serif CJK\<close>, subfamily \<^verbatim>\<open>Light\<close>, a font whose records stand
  in the order 6, 4, 3, 2, 1. With a save that sorts the records, the stored table has
  the records 1, 2, 4 and 6 rewritten and the record 3 as it was, five records in all;
  with a save that raises, the renamer raises the same error.
\<close>

theorem set_font_name_rewrites_witness:
  "''Light'' \<noteq> ''Regular''
   \<and> full_name_of ''Noto Serif CJK'' ''Light'' = ''Noto Serif CJK Light''
   \<and> ps_name_of ''Noto Serif CJK'' ''Light'' = ''NotoSerifCJKLight''
   \<and> ''name'' \<in> tables named_font
   \<and> (1 :: nat) < length (names named_font)
   \<and> rename_names (names named_font) ''Noto Serif CJK'' ''Light'' ! 1
       = name_rec 4 ''Noto Serif CJK Light''
   \<and> set_font_name (\<lambda>p. Inr named_font) sorting_save ''merged_common.ttf''
        ''Noto Serif CJK'' ''Light''
       = Inr (named_font\<lparr>names :=
                [name_rec 1 ''Noto Serif CJK'', name_rec 2 ''Light'', name_rec 3 ''Roboto:2017'',
                 name_rec 4 ''Noto Serif CJK Light'', name_rec 6 ''NotoSerifCJKLight'']\<rparr>,
              ''Font renamed to: Noto Serif CJK Light'')
   \<and> set_font_name (\<lambda>p. Inr named_font) refusing_save ''merged_common.ttf''
        ''Noto Serif CJK'' ''Light''
       = Inl (UnicodeEncodeError ''mac_roman'')"
proof -
  have h1: "''Light'' \<noteq> ''Regular''" by simp
  have h2: "''name'' \<in> tables named_font" by (simp add: named_font_def)
  have h3: "(1 :: nat) < length (names named_font)" by (simp add: named_font_def)
  note t = set_font_name_rewrites[of "''Noto Serif CJK''" "''Light''" "names named_font"
      "\<lambda>p. Inr named_font" "''merged_common.ttf''" sorting_save]
  note u = set_font_name_rewrites[of "''Noto Serif CJK''" "''Light''" "names named_font"
      "\<lambda>p. Inr named_font" "''merged_common.ttf''" refusing_save]
  note t2 = t[THEN conjunct2, THEN conjunct1]
  note t3 = t[THEN conjunct2, THEN conjunct2, THEN conjunct1]
  note t6 = t[THEN conjunct2, THEN conjunct2, THEN conjunct2, THEN conjunct2, THEN conjunct2,
      THEN conjunct1]
  note t7 = t[THEN conjunct2, THEN conjunct2, THEN conjunct2, THEN conjunct2, THEN conjunct2,
      THEN conjunct2, THEN conjunct1]
  note u7 = u[THEN conjunct2, THEN conjunct2, THEN conjunct2, THEN conjunct2, THEN conjunct2,
      THEN conjunct2, THEN conjunct1]
  from t2 h1 have f: "full_name_of ''Noto Serif CJK'' ''Light'' = ''Noto Serif CJK Light''"
    by simp
  from t3 have p: "ps_name_of ''Noto Serif CJK'' ''Light'' = ''NotoSerifCJKLight''"
    by (simp add: f)
  have n1: "names named_font ! 1 = name_rec 4 ''Roboto''" by (simp add: named_font_def)
  from t6 h3 have "rename_names (names named_font) ''Noto Serif CJK'' ''Light'' ! 1 =
          (if nameID (names named_font ! 1) = 1
             then (names named_font ! 1)\<lparr>string_value := ''Noto Serif CJK''\<rparr>
           else if nameID (names named_font ! 1) = 2
             then (names named_font ! 1)\<lparr>string_value := ''Light''\<rparr>
           else if nameID (names named_font ! 1) = 4
             then (names named_font ! 1)\<lparr>string_value := full_name_of ''Noto Serif CJK'' ''Light''\<rparr>
           else if nameID (names named_font ! 1) = 6
             then (names named_font ! 1)\<lparr>string_value := ps_name_of ''Noto Serif CJK'' ''Light''\<rparr>
           else names named_font ! 1)"
    by (elim allE impE)
  then have r: "rename_names (names named_font) ''Noto Serif CJK'' ''Light'' ! 1
      = name_rec 4 ''Noto Serif CJK Light''"
    by (simp only: n1 f) (simp add: name_rec_def)
  have rn: "rename_names (names named_font) ''Noto Serif CJK'' ''Light'' =
      [name_rec 6 ''NotoSerifCJKLight'', name_rec 4 ''Noto Serif CJK Light'',
       name_rec 3 ''Roboto:2017'', name_rec 2 ''Light'', name_rec 1 ''Noto Serif CJK'']"
    by (simp add: rename_names_def named_font_def rename_record_cases name_rec_def f p)
  have srt: "sort_key nameID
      [name_rec 6 ''NotoSerifCJKLight'', name_rec 4 ''Noto Serif CJK Light'',
       name_rec 3 ''Roboto:2017'', name_rec 2 ''Light'', name_rec 1 ''Noto Serif CJK'']
     = [name_rec 1 ''Noto Serif CJK'', name_rec 2 ''Light'', name_rec 3 ''Roboto:2017'',
        name_rec 4 ''Noto Serif CJK Light'', name_rec 6 ''NotoSerifCJKLight'']"
    by (simp add: name_rec_def)
  have o: "(\<lambda>p. Inr named_font) ''merged_common.ttf'' = (Inr named_font :: error + ttfont)
      \<and> ''name'' \<in> tables named_font"
    using h2 by simp
  from t7 o have "set_font_name (\<lambda>p. Inr named_font) sorting_save ''merged_common.ttf''
        ''Noto Serif CJK'' ''Light'' =
      (case sorting_save ''merged_common.ttf''
              (named_font\<lparr>names := rename_names (names named_font) ''Noto Serif CJK'' ''Light''\<rparr>) of
         Inl err \<Rightarrow> Inl err
       | Inr stored \<Rightarrow> Inr (stored, ''Font renamed to: '' @ full_name_of ''Noto Serif CJK'' ''Light''))"
    by (elim allE impE)
  moreover have "\<And>l. sorting_save ''merged_common.ttf'' (named_font\<lparr>names := l\<rparr>)
      = Inr (named_font\<lparr>names := sort_key nameID l\<rparr>)"
    by (simp add: sorting_save_def)
  ultimately have a: "set_font_name (\<lambda>p. Inr named_font) sorting_save ''merged_common.ttf''
        ''Noto Serif CJK'' ''Light''
       = Inr (named_font\<lparr>names :=
                [name_rec 1 ''Noto Serif CJK'', name_rec 2 ''Light'', name_rec 3 ''Roboto:2017'',
                 name_rec 4 ''Noto Serif CJK Light'', name_rec 6 ''NotoSerifCJKLight'']\<rparr>,
              ''Font renamed to: Noto Serif CJK Light'')"
    by (simp only: rn srt f sum.case append.simps)
  from u7 o have "set_font_name (\<lambda>p. Inr named_font) refusing_save ''merged_common.ttf''
        ''Noto Serif CJK'' ''Light'' =
      (case refusing_save ''merged_common.ttf''
              (named_font\<lparr>names := rename_names (names named_font) ''Noto Serif CJK'' ''Light''\<rparr>) of
         Inl err \<Rightarrow> Inl err
       | Inr stored \<Rightarrow> Inr (stored, ''Font renamed to: '' @ full_name_of ''Noto Serif CJK'' ''Light''))"
    by (elim allE impE)
  then have b: "set_font_name (\<lambda>p. Inr named_font) refusing_save ''merged_common.ttf''
        ''Noto Serif CJK'' ''Light'' = Inl (UnicodeEncodeError ''mac_roman'')"
    by (simp only: refusing_save_def sum.case)
  from h1 f p h2 h3 r a b show ?thesis by (intro conjI)
qed

section \<open>The partition inside a run\<close>

lemma read_corpus_loop_finite:
  "finite chars \<Longrightarrow> read_corpus_loop rd ps chars = Inr cs \<Longrightarrow> finite cs"
proof (induction ps arbitrary: chars)
  case Nil
  then show ?case by simp
next
  case (Cons p ps)
  then show ?case by (cases "rd p") auto
qed

lemma add_blocks_finite: "finite s \<Longrightarrow> finite (add_blocks a s)"
  unfolding add_blocks_def Let_def add_range_def LATIN_1_SUP_def
  by (simp only: finite_Un finite_atLeastLessThan_int if_split simp_thms)

lemma build_target_finite: "build_target rd a = Inr T \<Longrightarrow> finite T"
proof (cases "truthy (corpus a)")
  case False
  assume "build_target rd a = Inr T"
  with False have "T = add_blocks a ({} \<union> ASCII_BASIC)" by (simp add: build_target_def)
  then show ?thesis by (simp add: add_blocks_finite ASCII_BASIC_def)
next
  case True
  assume b: "build_target rd a = Inr T"
  with True obtain cs where
    r: "read_corpus_chars rd (case corpus a of Some ps \<Rightarrow> ps | None \<Rightarrow> []) = Inr cs"
    and T: "T = add_blocks a (({} \<union> ASCII_BASIC) \<union> chars_to_codepoints cs)"
    by (auto simp: build_target_def split: sum.splits)
  from r have "finite cs"
    unfolding read_corpus_chars_def by (rule read_corpus_loop_finite[rotated]) simp
  then show ?thesis
    by (simp add: T add_blocks_finite ASCII_BASIC_def chars_to_codepoints_def)
qed

lemma build_support_dom:
  "build_support opn fm order s0 = Inr s \<Longrightarrow> dom s = dom s0 \<union> set order"
proof (induction order arbitrary: s0)
  case Nil
  then show ?case by simp
next
  case (Cons tag rest)
  from Cons.prems obtain path unicodes where
    "build_support opn fm rest (s0(tag \<mapsto> unicodes)) = Inr s"
    by (auto split: option.splits sum.splits)
  from Cons.IH[OF this] show ?case by auto
qed

text \<open>
  In a run the partition never raises: the target is finite, the coverage dictionary is
  built over the order, and the order has no empty tag.
\<close>

lemma main_partition_returns_in_run:
  assumes "build_target rd a = Inr target"
    and "build_support opn (font_map_of a) (main_order a) Map.empty = Inr support"
  shows "\<exists>assigned. main_partition target (main_order a) support
            = Inr (assigned, card (uncovered target (main_order a) support))"
proof -
  have f: "finite target" using assms(1) by (rule build_target_finite)
  have d: "set (main_order a) \<subseteq> dom support" using build_support_dom[OF assms(2)] by simp
  from main_partition_char[OF f d main_order_tags_nonempty] show ?thesis by blast
qed

text \<open>
  The end-to-end example of the specification: A gets 0x41 and 0x42, B gets 0x43, and
  0x44 is the one unassigned codepoint.
\<close>

lemma partition_example:
  "main_partition {0x41, 0x42, 0x43, 0x44} [''A'', ''B'']
     [''A'' \<mapsto> {0x41, 0x42}, ''B'' \<mapsto> {0x42, 0x43}]
   = Inr ([''A'' \<mapsto> {0x41, 0x42}, ''B'' \<mapsto> {0x43}], 1)"
proof -
  have "sorted_list_of_set (set [0x41, 0x42, 0x43, 0x44 :: int]) = [0x41, 0x42, 0x43, 0x44]"
    by (rule sorted_list_of_set_sorted_list) simp_all
  then have srt: "sorted_list_of_set {0x41, 0x42, 0x43, 0x44 :: int} = [0x41, 0x42, 0x43, 0x44]"
    by simp
  have ini: "init_assigned [''A'', ''B''] = [''A'' \<mapsto> {}, ''B'' \<mapsto> {}]"
    by (simp add: init_assigned_def dict_of_def)
  show ?thesis
    by (simp add: main_partition_def srt ini fun_upd_twist insert_commute)
qed

end
